theory Spec2Isabelle
  imports Main
begin

chapter \<open>GitSmart: the repository intelligence engine\<close>

text \<open>
  A shallow embedding of \<^verbatim>\<open>src/gitsmart/git_context.py\<close> (class
  \<^verbatim>\<open>GitContextExtractor\<close>) and of the search of
  \<^verbatim>\<open>src/gitsmart/storage.py\<close> (class \<^verbatim>\<open>KnowledgeStorage\<close>).

  The git library and the file system are collaborators of the engine. What they answer is
  data of the model (the records \<open>Commit\<close> and \<open>Repo\<close> below); what the engine does
  with the answers is translated function by function. An exception is a value: a library
  call that the source expects to raise has an \<open>option\<close> answer, and an operation
  that can let an exception out returns \<open>error + result\<close>. Every operation also returns
  the engine state it leaves behind, since a Python exception does not undo the cache
  entries written before it. Exceptions the source does not reckon with (a time stamp
  outside the range of \<^verbatim>\<open>datetime\<close>, a file system error on
  \<^verbatim>\<open>stat\<close>, a git error on listing the whole log or the branches) are outside
  the model.
\<close>

section \<open>Python text operations\<close>

text \<open>
  Text is modelled as \<open>string\<close> and read as ASCII: \<open>str.lower\<close> maps \<open>A\<close>..\<open>Z\<close> to
  \<open>a\<close>..\<open>z\<close>, the pattern \<^verbatim>\<open>\w\<close> is \<^verbatim>\<open>[A-Za-z0-9_]\<close> and white space is
  what \<open>str.isspace\<close> accepts below code 128. A character outside ASCII is left alone by
  \<open>py_lower\<close> and is neither a word character nor white space.
\<close>

definition lower_char :: "char \<Rightarrow> char" where
  "lower_char c =
     (let n = (of_char c :: nat) in if 65 \<le> n \<and> n \<le> 90 then char_of (n + 32) else c)"

definition py_lower :: "string \<Rightarrow> string" where
  "py_lower s = map lower_char s"

definition is_word :: "char \<Rightarrow> bool" where
  "is_word c =
     (let n = (of_char c :: nat) in
        (48 \<le> n \<and> n \<le> 57) \<or> (65 \<le> n \<and> n \<le> 90) \<or> n = 95 \<or> (97 \<le> n \<and> n \<le> 122))"

definition is_space :: "char \<Rightarrow> bool" where
  "is_space c = (let n = (of_char c :: nat) in (9 \<le> n \<and> n \<le> 13) \<or> (28 \<le> n \<and> n \<le> 32))"

text \<open>\<^verbatim>\<open>s.strip()\<close>: white space removed at both ends.\<close>

definition py_strip :: "string \<Rightarrow> string" where
  "py_strip s = rev (dropWhile is_space (rev (dropWhile is_space s)))"

text \<open>\<^verbatim>\<open>sep.join(xs)\<close>.\<close>

fun py_join :: "string \<Rightarrow> string list \<Rightarrow> string" where
  "py_join sep [] = []"
| "py_join sep [x] = x"
| "py_join sep (x # y # ys) = x @ sep @ py_join sep (y # ys)"

text \<open>
  \<^verbatim>\<open>re.findall(r'\w+', s)\<close>: the maximal runs of word characters, left to right.
  \<open>words_from w s\<close> scans \<open>s\<close> with the run \<open>w\<close> read so far.
\<close>

fun words_from :: "string \<Rightarrow> string \<Rightarrow> string list" where
  "words_from w [] = (if w = [] then [] else [w])"
| "words_from w (c # cs) =
     (if is_word c then words_from (w @ [c]) cs
      else (if w = [] then [] else [w]) @ words_from [] cs)"

definition findall_words :: "string \<Rightarrow> string list" where
  "findall_words s = words_from [] s"

text \<open>\<^verbatim>\<open>q in s\<close> on strings: \<open>q\<close> occurs in \<open>s\<close> as a contiguous substring.\<close>

fun starts_with :: "string \<Rightarrow> string \<Rightarrow> bool" where
  "starts_with [] s = True"
| "starts_with (x # xs) [] = False"
| "starts_with (x # xs) (y # ys) = (x = y \<and> starts_with xs ys)"

fun str_in :: "string \<Rightarrow> string \<Rightarrow> bool" where
  "str_in q [] = (q = [])"
| "str_in q (c # cs) = (starts_with q (c # cs) \<or> str_in q cs)"

text \<open>
  A slice \<^verbatim>\<open>xs[:n]\<close> with a Python integer \<open>n\<close>: the first \<open>n\<close> elements, and for a
  negative \<open>n\<close> all but the last \<open>-n\<close>.
\<close>

definition py_take :: "int \<Rightarrow> 'a list \<Rightarrow> 'a list" where
  "py_take n xs = (if 0 \<le> n then take (nat n) xs else take (length xs - nat (- n)) xs)"

text \<open>
  \<^verbatim>\<open>xs.sort(key=lambda x: x[0], reverse=True)\<close> on a list of (score, item) pairs:
  Python's sort is stable, also with \<open>reverse=True\<close>, so pairs of equal score keep their
  order. Insertion by the negated score into the sorted rest is such a sort.
\<close>

definition sort_by_score :: "(int \<times> 'a) list \<Rightarrow> (int \<times> 'a) list" where
  "sort_by_score xs = sort_key (\<lambda>p. - fst p) xs"

section \<open>Data model of the engine\<close>

text \<open>
  What the git library gives for one commit (\<^verbatim>\<open>git.Commit\<close>). \<open>stats\<close> is the
  answer of the property \<^verbatim>\<open>commit.stats\<close>, computed by git at every access:
  \<open>None\<close> when that computation raises. \<open>files\<close> are the keys of
  \<^verbatim>\<open>stats.files\<close> in their order; the field \<open>commit_message\<close> is
  \<^verbatim>\<open>commit.message\<close> (the name \<open>message\<close> is taken by \<open>CommitInfo\<close>), and
  \<open>author_name\<close>, \<open>author_email\<close> are \<^verbatim>\<open>commit.author.name\<close> and
  \<^verbatim>\<open>commit.author.email\<close>. \<open>committed_date\<close> is in seconds since the epoch.
\<close>

record Stats =
  files :: "string list"
  total_insertions :: int
  total_deletions :: int

record Commit =
  hexsha :: string
  commit_message :: string
  author_name :: string
  author_email :: string
  committed_date :: int
  stats :: "Stats option"

text \<open>
  The dataclasses of the source. A time stamp
  \<^verbatim>\<open>datetime.fromtimestamp(t, tz=timezone.utc)\<close> is modelled by \<open>t\<close> itself:
  aware UTC datetimes are ordered as their time stamps.
\<close>

record CommitInfo =
  hash :: string
  short_hash :: string
  message :: string
  author :: string
  email :: string
  date :: int
  files_changed :: "string list"
  insertions :: int
  deletions :: int

record FileHistory =
  filepath :: string
  exists :: bool
  creation_date :: "int option"
  last_modified :: "int option"
  total_commits :: nat
  authors :: "string list"
  recent_changes :: "CommitInfo list"
  lines_of_code :: "nat option"
  file_size :: "nat option"

record RepoStats =
  commit_count :: nat
  file_count :: nat
  contributor_count :: nat
  age_days :: int
  primary_language :: "string option"
  languages :: "(string \<times> nat) list"
  recent_activity :: "CommitInfo list"
  branch_count :: nat
  current_branch :: string

text \<open>
  The state of one engine instance: the two caches of \<^verbatim>\<open>__init__\<close>, both empty
  at construction. \<open>stats_evals\<close> is not a field of the source: it is an instrumentation
  counter, the number of times the engine has evaluated \<^verbatim>\<open>commit.stats\<close>.
\<close>

record Engine =
  commit_cache :: "string \<rightharpoonup> CommitInfo"
  file_cache :: "string \<rightharpoonup> FileHistory"
  stats_evals :: nat

definition init_engine :: Engine where
  "init_engine = \<lparr>commit_cache = Map.empty, file_cache = Map.empty, stats_evals = 0\<rparr>"

section \<open>Commit Record Builder and Commit Cache\<close>

text \<open>
  \<^verbatim>\<open>_commit_to_info\<close>, the part after the cache lookup: the record derived from a
  commit. The \<^verbatim>\<open>try\<close> block reads \<^verbatim>\<open>commit.stats\<close> three times; when the
  first read raises, the bare \<^verbatim>\<open>except\<close> sets the empty file list and zero counts.
\<close>

definition derive_info :: "Commit \<Rightarrow> CommitInfo" where
  "derive_info c =
     (let (files_changed', insertions', deletions') =
            (case stats c of
               Some st \<Rightarrow> (files st, total_insertions st, total_deletions st)
             | None \<Rightarrow> ([], 0, 0))
      in \<lparr>hash = hexsha c,
          short_hash = take 8 (hexsha c),
          message = py_strip (commit_message c),
          author = author_name c,
          email = author_email c,
          date = committed_date c,
          files_changed = files_changed',
          insertions = insertions',
          deletions = deletions'\<rparr>)"

definition derive_evals :: "Commit \<Rightarrow> nat" where
  "derive_evals c = (case stats c of Some st \<Rightarrow> 3 | None \<Rightarrow> 1)"

text \<open>\<^verbatim>\<open>_commit_to_info\<close>: answer from the cache, or derive, store and answer.\<close>

definition commit_to_info :: "Commit \<Rightarrow> Engine \<Rightarrow> CommitInfo \<times> Engine" where
  "commit_to_info c s =
     (case commit_cache s (hexsha c) of
        Some info \<Rightarrow> (info, s)
      | None \<Rightarrow>
          (let commit_info = derive_info c
           in (commit_info,
               s\<lparr>commit_cache := (commit_cache s)(hexsha c \<mapsto> commit_info),
                 stats_evals := stats_evals s + derive_evals c\<rparr>)))"

text \<open>A list comprehension \<^verbatim>\<open>[self._commit_to_info(c) for c in cs]\<close>.\<close>

fun commits_to_infos :: "Commit list \<Rightarrow> Engine \<Rightarrow> CommitInfo list \<times> Engine" where
  "commits_to_infos [] s = ([], s)"
| "commits_to_infos (c # cs) s =
     (let (info, s1) = commit_to_info c s;
          (infos, s2) = commits_to_infos cs s1
      in (info # infos, s2))"


section \<open>The repository as the engine sees it\<close>

text \<open>
  Paths follow \<^verbatim>\<open>pathlib\<close> on a POSIX system. \<open>path_parts\<close> are the components of a
  path: empty components and \<^verbatim>\<open>.\<close> are dropped. \<open>as_posix\<close> is
  \<^verbatim>\<open>str(Path(p).as_posix())\<close>; \<open>path_suffix\<close> is \<^verbatim>\<open>Path(p).suffix\<close>, the
  part of the last component from its last dot, unless that dot is its first or its last
  character.
\<close>

fun split_from :: "char \<Rightarrow> string \<Rightarrow> string \<Rightarrow> string list" where
  "split_from d w [] = [w]"
| "split_from d w (c # cs) =
     (if c = d then w # split_from d [] cs else split_from d (w @ [c]) cs)"

definition path_parts :: "string \<Rightarrow> string list" where
  "path_parts p = filter (\<lambda>part. part \<noteq> [] \<and> part \<noteq> ''.'') (split_from CHR ''/'' [] p)"

definition path_root :: "string \<Rightarrow> string" where
  "path_root p =
     (let n = length (takeWhile (\<lambda>c. c = CHR ''/'') p)
      in if n = 2 then ''//'' else if 1 \<le> n then ''/'' else [])"

definition as_posix :: "string \<Rightarrow> string" where
  "as_posix p =
     (if path_root p = [] \<and> path_parts p = [] then ''.''
      else path_root p @ py_join ''/'' (path_parts p))"

definition path_name :: "string \<Rightarrow> string" where
  "path_name p = (case path_parts p of [] \<Rightarrow> [] | x # xs \<Rightarrow> last (x # xs))"

definition path_suffix :: "string \<Rightarrow> string" where
  "path_suffix p =
     (let name = path_name p;
          after = takeWhile (\<lambda>c. c \<noteq> CHR ''.'') (rev name)
      in if CHR ''.'' \<in> set name \<and> after \<noteq> [] \<and> Suc (length after) < length name
         then drop (length name - Suc (length after)) name
         else [])"

text \<open>A file of the working tree: its size, and its number of lines when it can be read.\<close>

record WorkFile =
  st_size :: nat
  line_count :: "nat option"

text \<open>
  The answers of the git library and of the file system, fixed while the engine runs:
  \<^item> \<open>commits\<close>: \<^verbatim>\<open>list(self.repo.iter_commits())\<close>, newest first;
  \<^item> \<open>path_commits p\<close>: \<^verbatim>\<open>list(self.repo.iter_commits(paths=p))\<close>, \<open>None\<close> when
    the query raises \<^verbatim>\<open>git.exc.GitCommandError\<close>;
  \<^item> \<open>branches\<close>: \<^verbatim>\<open>self.repo.branches\<close>; \<open>active_branch\<close>: the name of
    \<^verbatim>\<open>self.repo.active_branch\<close>, \<open>None\<close> when there is no active branch
    (\<^verbatim>\<open>get_repo_stats\<close> tests the branch for truth before it reads the name,
    \<^verbatim>\<open>get_current_context\<close> reads the name inside a \<^verbatim>\<open>try\<close>);
  \<^item> \<open>head_commit\<close>: \<^verbatim>\<open>self.repo.head.commit\<close>, \<open>None\<close> when it raises;
  \<^item> \<open>tracked_files\<close>: the \<^verbatim>\<open>a_path\<close> of the blobs met by
    \<^verbatim>\<open>self.repo.head.commit.tree.traverse()\<close>, \<open>None\<close> when the comprehension raises;
  \<^item> \<open>index_modified\<close>, \<open>index_staged\<close>: the paths of
    \<^verbatim>\<open>self.repo.index.diff(None)\<close> and \<^verbatim>\<open>self.repo.index.diff("HEAD")\<close>,
    \<open>None\<close> when the call raises;
  \<^item> \<open>worktree p\<close>: the file at \<^verbatim>\<open>self.repo_path / p\<close>, \<open>None\<close> when it does
    not exist.
\<close>

record Repo =
  repo_path :: string
  commits :: "Commit list"
  path_commits :: "string \<Rightarrow> Commit list option"
  branches :: "string list"
  active_branch :: "string option"
  head_commit :: "Commit option"
  tracked_files :: "string list option"
  index_modified :: "string list option"
  index_staged :: "string list option"
  worktree :: "string \<Rightarrow> WorkFile option"

text \<open>\<^verbatim>\<open>self.repo_path / filepath\<close>: an absolute \<open>filepath\<close> replaces the left side.\<close>

definition full_path :: "Repo \<Rightarrow> string \<Rightarrow> string" where
  "full_path repo fp = (if starts_with ''/'' fp then fp else repo_path repo @ ''/'' @ fp)"

section \<open>Repository Statistics Aggregator\<close>

definition language_map :: "(string \<times> string) list" where
  "language_map =
     [(''.py'', ''Python''), (''.js'', ''JavaScript''), (''.ts'', ''TypeScript''),
      (''.java'', ''Java''), (''.cpp'', ''C++''), (''.cc'', ''C++''), (''.cxx'', ''C++''),
      (''.c'', ''C''), (''.h'', ''C/C++''), (''.go'', ''Go''), (''.rs'', ''Rust''),
      (''.php'', ''PHP''), (''.rb'', ''Ruby''), (''.swift'', ''Swift''), (''.kt'', ''Kotlin''),
      (''.scala'', ''Scala''), (''.cs'', ''C#''), (''.html'', ''HTML''), (''.css'', ''CSS''),
      (''.scss'', ''SCSS''), (''.vue'', ''Vue''), (''.jsx'', ''React''),
      (''.tsx'', ''React/TypeScript''), (''.sql'', ''SQL''), (''.sh'', ''Shell''),
      (''.yml'', ''YAML''), (''.yaml'', ''YAML''), (''.json'', ''JSON''), (''.xml'', ''XML''),
      (''.md'', ''Markdown''), (''.dockerfile'', ''Docker'')]"

definition language_of :: "string \<Rightarrow> string" where
  "language_of fp =
     (case map_of language_map (py_lower (path_suffix fp)) of
        Some language \<Rightarrow> language
      | None \<Rightarrow> ''Other'')"

text \<open>
  \<^verbatim>\<open>languages[language] += 1\<close> on a \<^verbatim>\<open>defaultdict(int)\<close>. A Python dict keeps
  its keys in the order of their first insertion, and \<^verbatim>\<open>max\<close> below depends on that
  order, so the dict is an association list.
\<close>

fun count_language :: "string \<Rightarrow> (string \<times> nat) list \<Rightarrow> (string \<times> nat) list" where
  "count_language l [] = [(l, 1)]"
| "count_language l ((k, n) # kvs) =
     (if k = l then (k, n + 1) # kvs else (k, n) # count_language l kvs)"

definition analyze_languages :: "string list \<Rightarrow> (string \<times> nat) list" where
  "analyze_languages filepaths =
     foldl (\<lambda>langs fp. count_language (language_of fp) langs) [] filepaths"

text \<open>
  \<^verbatim>\<open>max(languages.keys(), key=languages.get) if languages else None\<close>: the first key
  of the greatest count.
\<close>

fun max_from :: "string \<times> nat \<Rightarrow> (string \<times> nat) list \<Rightarrow> string" where
  "max_from (k, n) [] = k"
| "max_from (k, n) ((k', n') # kvs) =
     (if n < n' then max_from (k', n') kvs else max_from (k, n) kvs)"

definition primary_language_of :: "(string \<times> nat) list \<Rightarrow> string option" where
  "primary_language_of langs = (case langs of [] \<Rightarrow> None | kv # kvs \<Rightarrow> Some (max_from kv kvs))"

text \<open>
  \<^verbatim>\<open>self.repo.active_branch.name if self.repo.active_branch else "unknown"\<close>.
\<close>

definition current_branch_name :: "Repo \<Rightarrow> string" where
  "current_branch_name repo = (case active_branch repo of Some name \<Rightarrow> name | None \<Rightarrow> ''unknown'')"

text \<open>
  \<^verbatim>\<open>get_repo_stats\<close>. The contributors are a set of e-mail addresses, counted
  without repetition. \<open>commits[-1]\<close> and \<open>commits[0]\<close> are read only on a list that is
  not empty.
\<close>

definition get_repo_stats :: "Repo \<Rightarrow> Engine \<Rightarrow> RepoStats \<times> Engine" where
  "get_repo_stats repo s =
     (let cs = commits repo in
      if cs = [] then
        (\<lparr>commit_count = 0, file_count = 0, contributor_count = 0, age_days = 0,
          primary_language = None, languages = [], recent_activity = [],
          branch_count = length (branches repo),
          current_branch = current_branch_name repo\<rparr>, s)
      else
        (let contributors = remdups (map author_email cs);
             oldest_commit = last cs;
             newest_commit = hd cs;
             age = (committed_date newest_commit - committed_date oldest_commit) div 86400;
             (file_count', languages', primary_language') =
               (case tracked_files repo of
                  Some fs \<Rightarrow>
                    (length fs, analyze_languages fs, primary_language_of (analyze_languages fs))
                | None \<Rightarrow> (0, [], None));
             (recent, s') = commits_to_infos (take 20 cs) s
         in (\<lparr>commit_count = length cs, file_count = file_count',
               contributor_count = length contributors, age_days = age,
               primary_language = primary_language', languages = languages',
               recent_activity = recent,
               branch_count = length (branches repo),
               current_branch = current_branch_name repo\<rparr>, s')))"

section \<open>Commit Relevance Search\<close>

datatype error = StatsUnavailable | StorageError

text \<open>
  The score of one commit in the loop of \<^verbatim>\<open>search_commits\<close>, from the lower-cased
  query, the set of its words (a list without repetition), the commit's message and the
  keys of its \<^verbatim>\<open>stats.files\<close>.
\<close>

definition commit_text_of :: "string \<Rightarrow> string list \<Rightarrow> string" where
  "commit_text_of msg fs = py_lower (msg @ '' '' @ py_join '' '' fs)"

definition score_commit :: "string \<Rightarrow> string list \<Rightarrow> string \<Rightarrow> string list \<Rightarrow> int" where
  "score_commit query_lower query_words msg fs =
     (let commit_text = commit_text_of msg fs;
          commit_words = findall_words commit_text;
          word_matches = length (filter (\<lambda>w. w \<in> set commit_words) query_words);
          path_matches =
            length (filter (\<lambda>fp. list_ex (\<lambda>w. str_in w (py_lower fp)) query_words) fs)
      in (if str_in query_lower commit_text then 10 else 0)
         + int word_matches * 2 + int path_matches)"

text \<open>
  The loop over \<^verbatim>\<open>self.repo.iter_commits()\<close> with the list \<open>matching\<close> collected so
  far. The test at the head of the body leaves the loop once \<open>max_results\<close> commits are
  collected. \<^verbatim>\<open>commit.stats\<close> is read outside any \<^verbatim>\<open>try\<close>, twice when it
  succeeds: when it raises, the exception leaves \<^verbatim>\<open>search_commits\<close>.
\<close>

fun search_loop ::
  "string \<Rightarrow> string list \<Rightarrow> int \<Rightarrow> Commit list \<Rightarrow> (int \<times> CommitInfo) list \<Rightarrow> Engine
   \<Rightarrow> (error + (int \<times> CommitInfo) list) \<times> Engine" where
  "search_loop ql qw max_results [] matching s = (Inr matching, s)"
| "search_loop ql qw max_results (c # cs) matching s =
     (if max_results \<le> int (length matching) then (Inr matching, s)
      else
        (case stats c of
           None \<Rightarrow> (Inl StatsUnavailable, s\<lparr>stats_evals := stats_evals s + 1\<rparr>)
         | Some st \<Rightarrow>
             (let score = score_commit ql qw (commit_message c) (files st);
                  s0 = s\<lparr>stats_evals := stats_evals s + 2\<rparr>
              in if 0 < score then
                   (let (commit_info, s1) = commit_to_info c s0
                    in search_loop ql qw max_results cs (matching @ [(score, commit_info)]) s1)
                 else search_loop ql qw max_results cs matching s0)))"

definition search_commits ::
  "Repo \<Rightarrow> string \<Rightarrow> int \<Rightarrow> Engine \<Rightarrow> (error + CommitInfo list) \<times> Engine" where
  "search_commits repo query max_results s =
     (let query_lower = py_lower query;
          query_words = remdups (findall_words query_lower)
      in (case search_loop query_lower query_words max_results (commits repo) [] s of
            (Inl e, s') \<Rightarrow> (Inl e, s')
          | (Inr matching, s') \<Rightarrow> (Inr (map snd (sort_by_score matching)), s')))"

section \<open>File History Tracker\<close>

definition text_extensions :: "string list" where
  "text_extensions =
     [''.py'', ''.js'', ''.ts'', ''.java'', ''.cpp'', ''.c'', ''.h'', ''.go'', ''.rs'',
      ''.php'', ''.rb'', ''.swift'', ''.kt'', ''.scala'', ''.cs'', ''.html'', ''.css'',
      ''.scss'', ''.vue'', ''.jsx'', ''.tsx'', ''.sql'', ''.sh'', ''.yml'', ''.yaml'',
      ''.json'', ''.xml'', ''.md'', ''.txt'', ''.conf'', ''.cfg'', ''.ini'']"

definition is_text_file :: "string \<Rightarrow> bool" where
  "is_text_file p = (py_lower (path_suffix p) \<in> set text_extensions)"

text \<open>
  \<^verbatim>\<open>get_file_history\<close>. A cached history is returned as it is. Otherwise the path's
  commits are listed, with the empty list when the query raises
  \<^verbatim>\<open>GitCommandError\<close>, the history is built and stored under the path as it was
  given. \<^verbatim>\<open>list(set(...))\<close> leaves the order of the authors to the set;
  \<open>remdups\<close> fixes one.
\<close>

definition get_file_history :: "Repo \<Rightarrow> string \<Rightarrow> Engine \<Rightarrow> FileHistory \<times> Engine" where
  "get_file_history repo fp s =
     (case file_cache s fp of
        Some history \<Rightarrow> (history, s)
      | None \<Rightarrow>
          (let rel_path = as_posix fp;
               exists' = (worktree repo fp \<noteq> None);
               file_size' = map_option st_size (worktree repo fp);
               cs = (case path_commits repo rel_path of Some cs \<Rightarrow> cs | None \<Rightarrow> [])
           in if cs = [] then
                (let history =
                       \<lparr>filepath = fp, exists = exists', creation_date = None,
                        last_modified = None, total_commits = 0, authors = [],
                        recent_changes = [], lines_of_code = None, file_size = file_size'\<rparr>
                 in (history, s\<lparr>file_cache := (file_cache s)(fp \<mapsto> history)\<rparr>))
              else
                (let creation = committed_date (last cs);
                     modified = committed_date (hd cs);
                     authors' = remdups (map author_email cs);
                     (recent, s1) = commits_to_infos (take 10 cs) s;
                     lines =
                       (case worktree repo fp of
                          Some f \<Rightarrow> if is_text_file (full_path repo fp) then line_count f else None
                        | None \<Rightarrow> None);
                     history =
                       \<lparr>filepath = fp, exists = exists', creation_date = Some creation,
                        last_modified = Some modified, total_commits = length cs,
                        authors = authors', recent_changes = recent,
                        lines_of_code = lines, file_size = file_size'\<rparr>
                 in (history, s1\<lparr>file_cache := (file_cache s1)(fp \<mapsto> history)\<rparr>))))"

section \<open>The other operations that write the commit cache\<close>

text \<open>\<^verbatim>\<open>get_recent_commits\<close>.\<close>

definition get_recent_commits :: "Repo \<Rightarrow> int \<Rightarrow> Engine \<Rightarrow> CommitInfo list \<times> Engine" where
  "get_recent_commits repo count s = commits_to_infos (py_take count (commits repo)) s"

text \<open>
  \<^verbatim>\<open>get_current_context\<close>. Each \<^verbatim>\<open>try\<close> has a bare \<^verbatim>\<open>except\<close>: a missing
  branch gives \<^verbatim>\<open>"detached"\<close>, a missing head commit gives no commit, and when either
  diff raises both lists are empty. The commit is kept as the record that
  \<^verbatim>\<open>to_dict\<close> renders.
\<close>

record CurrentContext =
  branch :: string
  current_commit :: "CommitInfo option"
  modified_files :: "string list"
  staged_files :: "string list"
  context_repo_path :: string

definition get_current_context :: "Repo \<Rightarrow> Engine \<Rightarrow> CurrentContext \<times> Engine" where
  "get_current_context repo s =
     (let current_branch' = (case active_branch repo of Some name \<Rightarrow> name | None \<Rightarrow> ''detached'');
          (current_commit_info, s') =
            (case head_commit repo of
               Some c \<Rightarrow> (let (info, s1) = commit_to_info c s in (Some info, s1))
             | None \<Rightarrow> (None, s));
          (modified', staged') =
            (case (index_modified repo, index_staged repo) of
               (Some m, Some g) \<Rightarrow> (m, g)
             | _ \<Rightarrow> ([], []))
      in (\<lparr>branch = current_branch', current_commit = current_commit_info,
            modified_files = modified', staged_files = staged',
            context_repo_path = repo_path repo\<rparr>, s'))"


section \<open>The engine as a machine\<close>

text \<open>
  The public operations of \<^verbatim>\<open>GitContextExtractor\<close> that can write a cache, as
  events, and the state each leaves behind, whether it returns or raises.
  \<^verbatim>\<open>find_related_files\<close>, \<^verbatim>\<open>analyze_complexity_trends\<close> and the private
  helpers other than \<^verbatim>\<open>_commit_to_info\<close> read neither cache and write none.
\<close>

datatype operation =
    GetRepoStats
  | SearchCommits string int
  | GetFileHistory string
  | GetRecentCommits int
  | GetCurrentContext

fun run :: "Repo \<Rightarrow> operation \<Rightarrow> Engine \<Rightarrow> Engine" where
  "run repo GetRepoStats s = snd (get_repo_stats repo s)"
| "run repo (SearchCommits query max_results) s = snd (search_commits repo query max_results s)"
| "run repo (GetFileHistory fp) s = snd (get_file_history repo fp s)"
| "run repo (GetRecentCommits count) s = snd (get_recent_commits repo count s)"
| "run repo GetCurrentContext s = snd (get_current_context repo s)"

fun run_all :: "Repo \<Rightarrow> operation list \<Rightarrow> Engine \<Rightarrow> Engine" where
  "run_all repo [] s = s"
| "run_all repo (operation # rest) s = run_all repo rest (run repo operation s)"

section \<open>Memory Relevance Search\<close>

text \<open>
  The dataclass \<^verbatim>\<open>Memory\<close>; \<open>mem_id\<close> is its field \<^verbatim>\<open>id\<close> and
  \<open>mem_context\<close> its field \<^verbatim>\<open>context\<close>. The context mapping is the list of its items in order, each key and each value as Python renders it
  inside a dict (its \<^verbatim>\<open>repr\<close>); \<open>str_dict\<close> is \<^verbatim>\<open>str(memory.context)\<close>.
\<close>

record Memory =
  mem_id :: string
  content :: string
  enhanced_content :: "string option"
  memory_type :: string
  mem_context :: "(string \<times> string) list"
  tags :: "string list"
  created_at :: string

definition str_dict :: "(string \<times> string) list \<Rightarrow> string" where
  "str_dict items = ''{'' @ py_join '', '' (map (\<lambda>(k, v). k @ '': '' @ v) items) @ ''}''"

text \<open>
  The store: the in-memory cache of \<^verbatim>\<open>KnowledgeStorage\<close> and the file
  \<^verbatim>\<open>memories.json\<close>, which is missing, or cannot be read as a list of memories, or
  holds one.
\<close>

datatype memories_file = Missing | Unreadable | Holds "Memory list"

record Storage =
  memories_cache :: "Memory list option"
  stored :: memories_file

text \<open>\<^verbatim>\<open>_load_memories\<close>.\<close>

definition load_memories :: "Storage \<Rightarrow> (error + Memory list) \<times> Storage" where
  "load_memories st =
     (case memories_cache st of
        Some memories \<Rightarrow> (Inr memories, st)
      | None \<Rightarrow>
          (case stored st of
             Missing \<Rightarrow> (Inr [], st\<lparr>memories_cache := Some []\<rparr>)
           | Unreadable \<Rightarrow> (Inl StorageError, st)
           | Holds memories \<Rightarrow> (Inr memories, st\<lparr>memories_cache := Some memories\<rparr>)))"

text \<open>
  The score of one memory in the loop of \<^verbatim>\<open>search_memories\<close>. The test
  \<^verbatim>\<open>memory.enhanced_content and ...\<close> is false for \<^verbatim>\<open>None\<close> and for the empty
  string.
\<close>

definition score_memory :: "string \<Rightarrow> Memory \<Rightarrow> int" where
  "score_memory query_lower memory =
     (if str_in query_lower (py_lower (content memory)) then 5 else 0)
     + (case enhanced_content memory of
          Some e \<Rightarrow> if e \<noteq> [] \<and> str_in query_lower (py_lower e) then 3 else 0
        | None \<Rightarrow> 0)
     + 2 * int (length (filter (\<lambda>tag. str_in query_lower (py_lower tag)) (tags memory)))
     + (if str_in query_lower (py_lower (str_dict (mem_context memory))) then 1 else 0)"

fun score_memories :: "string \<Rightarrow> Memory list \<Rightarrow> (int \<times> Memory) list \<Rightarrow> (int \<times> Memory) list" where
  "score_memories query_lower [] scored = scored"
| "score_memories query_lower (memory # rest) scored =
     (let score = score_memory query_lower memory
      in if 0 < score then score_memories query_lower rest (scored @ [(score, memory)])
         else score_memories query_lower rest scored)"

text \<open>
  \<^verbatim>\<open>search_memories\<close>; a memory stands for the dict \<^verbatim>\<open>memory.to_dict()\<close> of its
  fields.
\<close>

definition search_memories ::
  "Storage \<Rightarrow> string \<Rightarrow> int \<Rightarrow> (error + Memory list) \<times> Storage" where
  "search_memories st query limit =
     (case load_memories st of
        (Inl e, st') \<Rightarrow> (Inl e, st')
      | (Inr memories, st') \<Rightarrow>
          (let query_lower = py_lower query;
               scored_memories = sort_by_score (score_memories query_lower memories [])
           in (Inr (map snd (py_take limit scored_memories)), st')))"


section \<open>Invariants of the caches\<close>

text \<open>
  The commit cache is well-keyed when every key maps to a record with that full hash and
  its first eight characters as short hash; \<open>cache_kept s s'\<close> says that every entry of
  \<open>s\<close> is still in \<open>s'\<close>, unchanged. \<open>grows C s s'\<close> adds where the new entries come
  from: each is the record derived from a commit of \<open>C\<close>, under that commit's id.
\<close>

definition cache_ok :: "Engine \<Rightarrow> bool" where
  "cache_ok s \<longleftrightarrow>
     (\<forall>k r. commit_cache s k = Some r \<longrightarrow> hash r = k \<and> short_hash r = take 8 k)"

definition cache_kept :: "Engine \<Rightarrow> Engine \<Rightarrow> bool" where
  "cache_kept s s' \<longleftrightarrow> (\<forall>k r. commit_cache s k = Some r \<longrightarrow> commit_cache s' k = Some r)"

definition grows :: "Commit set \<Rightarrow> Engine \<Rightarrow> Engine \<Rightarrow> bool" where
  "grows C s s' \<longleftrightarrow>
     cache_kept s s' \<and>
     (\<forall>k r. commit_cache s' k = Some r \<longrightarrow>
        commit_cache s k = Some r \<or> (\<exists>c\<in>C. hexsha c = k \<and> r = derive_info c))"

text \<open>Every commit object the repository can hand to the engine.\<close>

definition repo_commits :: "Repo \<Rightarrow> Commit set" where
  "repo_commits repo =
     set (commits repo) \<union> {c. \<exists>p cs. path_commits repo p = Some cs \<and> c \<in> set cs}
     \<union> set_option (head_commit repo)"

text \<open>
  The commits \<^verbatim>\<open>get_file_history\<close> works on for a path, and what a history built
  from them says. The file cache is sound when every cached history says that of its
  path's commits.
\<close>

definition path_log :: "Repo \<Rightarrow> string \<Rightarrow> Commit list" where
  "path_log repo fp = (case path_commits repo (as_posix fp) of Some cs \<Rightarrow> cs | None \<Rightarrow> [])"

definition history_matches :: "Commit list \<Rightarrow> FileHistory \<Rightarrow> bool" where
  "history_matches cs h \<longleftrightarrow>
     total_commits h = length cs \<and>
     (if cs = [] then
        creation_date h = None \<and> last_modified h = None \<and> authors h = [] \<and>
        recent_changes h = []
      else
        creation_date h = Some (committed_date (last cs)) \<and>
        last_modified h = Some (committed_date (hd cs)))"

definition file_ok :: "Repo \<Rightarrow> Engine \<Rightarrow> bool" where
  "file_ok repo s \<longleftrightarrow>
     (\<forall>fp h. file_cache s fp = Some h \<longrightarrow> history_matches (path_log repo fp) h)"

text \<open>An enumeration is newest first when its committed time stamps never increase.\<close>

definition newest_first :: "Commit list \<Rightarrow> bool" where
  "newest_first cs \<longleftrightarrow> sorted_wrt (\<lambda>a b. committed_date b \<le> committed_date a) cs"

text \<open>
  Commit ids identify commits: two commit objects of the repository with the same id are
  the same commit. The commit cache is faithful to the repository when the record it holds
  under the id of a commit is the record derived from that commit.
\<close>

definition ids_identify :: "Repo \<Rightarrow> bool" where
  "ids_identify repo \<longleftrightarrow>
     (\<forall>c\<in>repo_commits repo. \<forall>c'\<in>repo_commits repo. hexsha c = hexsha c' \<longrightarrow> c = c')"

definition cache_consistent :: "Repo \<Rightarrow> Engine \<Rightarrow> bool" where
  "cache_consistent repo s \<longleftrightarrow>
     (\<forall>c\<in>repo_commits repo. \<forall>r. commit_cache s (hexsha c) = Some r \<longrightarrow> r = derive_info c)"

section \<open>Commit Relevance Search as the specification words it\<close>

text \<open>
  The specification (4.4) scores every commit of the stream, discards the commits of score
  0, sorts the rest by score, highest first and stable, and then truncates to the maximum.
  \<open>relevance\<close> is the score of a commit for a query, on its message and changed file
  paths, with the empty list of paths where the statistics are unavailable (4.1);
  \<open>scored_commits\<close> are the commits of positive score with their scores, in the order
  of the enumeration.
\<close>

definition changed_files :: "Commit \<Rightarrow> string list" where
  "changed_files c = (case stats c of Some st \<Rightarrow> files st | None \<Rightarrow> [])"

definition relevance :: "string \<Rightarrow> Commit \<Rightarrow> int" where
  "relevance query c =
     score_commit (py_lower query) (remdups (findall_words (py_lower query)))
       (commit_message c) (changed_files c)"

definition scored_commits :: "string \<Rightarrow> Commit list \<Rightarrow> (int \<times> CommitInfo) list" where
  "scored_commits query cs =
     filter (\<lambda>p. 0 < fst p) (map (\<lambda>c. (relevance query c, derive_info c)) cs)"

definition spec_search_commits :: "Repo \<Rightarrow> string \<Rightarrow> int \<Rightarrow> CommitInfo list" where
  "spec_search_commits repo query m =
     take (nat m) (map snd (sort_by_score (scored_commits query (commits repo))))"

text \<open>The memories of positive score with their scores, in the order of the store.\<close>

definition scored_memories :: "string \<Rightarrow> Memory list \<Rightarrow> (int \<times> Memory) list" where
  "scored_memories query_lower memories =
     filter (\<lambda>p. 0 < fst p)
       (map (\<lambda>memory. (score_memory query_lower memory, memory)) memories)"

section \<open>Example data\<close>

definition commit_a :: Commit where
  "commit_a =
     \<lparr>hexsha = ''a1b2c3d4e5f60718'', commit_message = ''fix redis timeout'',
      author_name = ''Ann'', author_email = ''ann@example.org'',
      committed_date = 1700000300,
      stats = Some \<lparr>files = [''src/cache.py''], total_insertions = 3, total_deletions = 1\<rparr>\<rparr>"

definition commit_b :: Commit where
  "commit_b =
     \<lparr>hexsha = ''b2c3d4e5f6071829'', commit_message = ''update docs'',
      author_name = ''Bob'', author_email = ''bob@example.org'',
      committed_date = 1700000200,
      stats = Some \<lparr>files = [''redis/config.py''], total_insertions = 2, total_deletions = 0\<rparr>\<rparr>"

definition commit_c :: Commit where
  "commit_c =
     \<lparr>hexsha = ''c3d4e5f60718293a'', commit_message = ''initial import'',
      author_name = ''Ann'', author_email = ''ann@example.org'',
      committed_date = 1700000100, stats = None\<rparr>"

definition example_repo :: Repo where
  "example_repo =
     \<lparr>repo_path = ''/work/project'', commits = [commit_a, commit_b, commit_c],
      path_commits =
        (\<lambda>p. if p = ''src/cache.py'' then Some [commit_a, commit_c]
             else if p = ''gone.txt'' then None else Some []),
      branches = [''main''], active_branch = Some ''main'', head_commit = Some commit_a,
      tracked_files = Some [''src/cache.py'', ''redis/config.py''],
      index_modified = Some [], index_staged = Some [],
      worktree = (\<lambda>p. None)\<rparr>"

definition empty_repo :: Repo where
  "empty_repo =
     \<lparr>repo_path = ''/work/fresh'', commits = [], path_commits = (\<lambda>p. Some []),
      branches = [], active_branch = Some ''main'', head_commit = None,
      tracked_files = None, index_modified = None, index_staged = None,
      worktree = (\<lambda>p. None)\<rparr>"

text \<open>A log of one commit whose statistics cannot be computed.\<close>

definition unstat_repo :: Repo where
  "unstat_repo =
     \<lparr>repo_path = ''/work/broken'', commits = [commit_c], path_commits = (\<lambda>p. Some []),
      branches = [''main''], active_branch = Some ''main'', head_commit = Some commit_c,
      tracked_files = None, index_modified = Some [], index_staged = Some [],
      worktree = (\<lambda>p. None)\<rparr>"

text \<open>The two commits of the ranking example, newest first.\<close>

definition redis_repo :: Repo where
  "redis_repo =
     \<lparr>repo_path = ''/work/redis'', commits = [commit_a, commit_b],
      path_commits = (\<lambda>p. None),
      branches = [''main''], active_branch = Some ''main'', head_commit = None,
      tracked_files = None, index_modified = None, index_staged = None,
      worktree = (\<lambda>p. None)\<rparr>"

text \<open>A log whose older commit is the more relevant one for \<open>redis timeout\<close>.\<close>

definition commit_old :: Commit where
  "commit_old =
     \<lparr>hexsha = ''0f1e2d3c4b5a6978'', commit_message = ''fix redis timeout'',
      author_name = ''Ann'', author_email = ''ann@example.org'',
      committed_date = 1700000100,
      stats = Some \<lparr>files = [''src/cache.py''], total_insertions = 3, total_deletions = 1\<rparr>\<rparr>"

definition commit_new :: Commit where
  "commit_new =
     \<lparr>hexsha = ''1a2b3c4d5e6f7081'', commit_message = ''raise timeout'',
      author_name = ''Bob'', author_email = ''bob@example.org'',
      committed_date = 1700000200,
      stats = Some \<lparr>files = [''src/net.py''], total_insertions = 1, total_deletions = 1\<rparr>\<rparr>"

definition two_repo :: Repo where
  "two_repo =
     \<lparr>repo_path = ''/work/two'', commits = [commit_new, commit_old],
      path_commits = (\<lambda>p. None),
      branches = [''main''], active_branch = Some ''main'', head_commit = None,
      tracked_files = None, index_modified = None, index_staged = None,
      worktree = (\<lambda>p. None)\<rparr>"

text \<open>A store of three memories.\<close>

definition memory_tagged :: Memory where
  "memory_tagged =
     \<lparr>mem_id = ''m1'', content = [], enhanced_content = None, memory_type = ''note'',
      mem_context = [], tags = [''redis''], created_at = ''2024-01-01T10:00:00+00:00''\<rparr>"

definition memory_worded :: Memory where
  "memory_worded =
     \<lparr>mem_id = ''m2'', content = ''Use Redis for sessions'', enhanced_content = None,
      memory_type = ''decision'', mem_context = [], tags = [''sessions''],
      created_at = ''2024-01-02T10:00:00+00:00''\<rparr>"

definition memory_other :: Memory where
  "memory_other =
     \<lparr>mem_id = ''m3'', content = ''Indent with spaces'', enhanced_content = Some ''Style rule'',
      memory_type = ''decision'', mem_context = [], tags = [''style''],
      created_at = ''2024-01-03T10:00:00+00:00''\<rparr>"

definition example_store :: Storage where
  "example_store =
     \<lparr>memories_cache = None, stored = Holds [memory_tagged, memory_worded, memory_other]\<rparr>"

section \<open>Properties of the text operations\<close>

text \<open>\<open>str_in q s\<close> holds exactly when \<open>q\<close> is a contiguous part of \<open>s\<close>.\<close>

lemma starts_with_iff: "starts_with q s \<longleftrightarrow> (\<exists>b. s = q @ b)"
  by (induction q s rule: starts_with.induct) auto

lemma str_in_iff: "str_in q s \<longleftrightarrow> (\<exists>a b. s = a @ q @ b)"
proof (induction s)
  case Nil
  show ?case by simp
next
  case (Cons c cs)
  show ?case
  proof
    assume "str_in q (c # cs)"
    then consider "starts_with q (c # cs)" | "str_in q cs" by auto
    then show "\<exists>a b. c # cs = a @ q @ b"
    proof cases
      case 1
      then obtain b where "c # cs = q @ b" by (auto simp: starts_with_iff)
      then have "c # cs = [] @ q @ b" by simp
      then show ?thesis by blast
    next
      case 2
      with Cons.IH obtain a b where "cs = a @ q @ b" by auto
      then have "c # cs = (c # a) @ q @ b" by simp
      then show ?thesis by blast
    qed
  next
    assume "\<exists>a b. c # cs = a @ q @ b"
    then obtain a b where ab: "c # cs = a @ q @ b" by blast
    show "str_in q (c # cs)"
    proof (cases a)
      case Nil
      with ab have "starts_with q (c # cs)" by (auto simp: starts_with_iff)
      then show ?thesis by simp
    next
      case (Cons x a')
      with ab have "cs = a' @ q @ b" by simp
      with Cons.IH have "str_in q cs" by blast
      then show ?thesis by simp
    qed
  qed
qed

text \<open>
  \<open>sort_by_score\<close> is a stable sort by descending score: its result is ordered, holds the
  same pairs, and keeps the pairs of each score in their order.
\<close>

lemma sort_by_score_descending: "sorted_wrt (\<lambda>p q. fst q \<le> fst p) (sort_by_score xs)"
proof -
  have "sorted (map (\<lambda>p. - fst p) (sort_by_score xs))"
    by (simp add: sort_by_score_def)
  then show ?thesis
    by (simp add: sorted_map)
qed

lemma sort_by_score_stable:
  "filter (\<lambda>p. fst p = k) (sort_by_score xs) = filter (\<lambda>p. fst p = k) xs"
  using sort_key_stable [of "\<lambda>p. - fst p" "- k" xs] by (simp add: sort_by_score_def)

lemma sort_by_score_same_elements:
  "set (sort_by_score xs) = set xs \<and> length (sort_by_score xs) = length xs"
  by (simp add: sort_by_score_def)

text \<open>Every word found is a non-empty run of word characters.\<close>

lemma words_from_words:
  "\<forall>c\<in>set w. is_word c \<Longrightarrow> x \<in> set (words_from w s) \<Longrightarrow>
   x \<noteq> [] \<and> (\<forall>c\<in>set x. is_word c)"
proof (induction s arbitrary: w)
  case Nil
  then show ?case by (auto split: if_splits)
next
  case (Cons a s)
  show ?case
  proof (cases "is_word a")
    case True
    with Cons.prems have "\<forall>c\<in>set (w @ [a]). is_word c" and "x \<in> set (words_from (w @ [a]) s)"
      by simp_all
    then show ?thesis by (rule Cons.IH)
  next
    case False
    with Cons.prems have "x \<in> set (if w = [] then [] else [w]) \<or> x \<in> set (words_from [] s)"
      by simp
    then show ?thesis
    proof
      assume "x \<in> set (if w = [] then [] else [w])"
      with Cons.prems(1) show ?thesis by (auto split: if_splits)
    next
      assume "x \<in> set (words_from [] s)"
      with Cons.IH [of "[]"] show ?thesis by simp
    qed
  qed
qed

lemma findall_words_words:
  "x \<in> set (findall_words s) \<Longrightarrow> x \<noteq> [] \<and> (\<forall>c\<in>set x. is_word c)"
  unfolding findall_words_def by (rule words_from_words) simp_all

section \<open>Properties of the commit cache\<close>

subsection \<open>How operations extend the cache\<close>

lemma grows_refl: "grows C s s"
  by (simp add: grows_def cache_kept_def)

lemma grows_trans: "grows C s s1 \<Longrightarrow> grows C s1 s2 \<Longrightarrow> grows C s s2"
  unfolding grows_def cache_kept_def by blast

lemma grows_same_cache: "commit_cache s' = commit_cache s \<Longrightarrow> grows C s s'"
  by (simp add: grows_def cache_kept_def)

lemma grows_after: "grows C s s1 \<Longrightarrow> commit_cache s2 = commit_cache s1 \<Longrightarrow> grows C s s2"
  by (simp add: grows_def cache_kept_def)

lemma grows_before: "grows C s1 s2 \<Longrightarrow> commit_cache s1 = commit_cache s \<Longrightarrow> grows C s s2"
  by (simp add: grows_def cache_kept_def)

lemma commit_to_info_grows: "c \<in> C \<Longrightarrow> grows C s (snd (commit_to_info c s))"
  by (auto simp: grows_def cache_kept_def commit_to_info_def Let_def split: option.splits)

lemma commit_to_info_file_cache: "file_cache (snd (commit_to_info c s)) = file_cache s"
  by (simp add: commit_to_info_def Let_def split: option.splits)

lemma commits_to_infos_grows: "set cs \<subseteq> C \<Longrightarrow> grows C s (snd (commits_to_infos cs s))"
proof (induction cs arbitrary: s)
  case Nil
  show ?case by (simp add: grows_refl)
next
  case (Cons c cs)
  have 1: "grows C s (snd (commit_to_info c s))"
    using Cons.prems by (simp add: commit_to_info_grows)
  have 2: "grows C (snd (commit_to_info c s))
             (snd (commits_to_infos cs (snd (commit_to_info c s))))"
    using Cons.prems by (simp add: Cons.IH)
  from grows_trans [OF 1 2] show ?case
    by (simp add: case_prod_beta Let_def)
qed

lemma commits_to_infos_file_cache: "file_cache (snd (commits_to_infos cs s)) = file_cache s"
  by (induction cs arbitrary: s) (simp_all add: case_prod_beta Let_def commit_to_info_file_cache)

text \<open>The search loop: induction on the commits still to scan, for every list collected so far.\<close>

lemma search_loop_grows:
  "set cs \<subseteq> C \<Longrightarrow> grows C s (snd (search_loop ql qw m cs matching s))"
proof (induction cs arbitrary: matching s)
  case Nil
  show ?case by (simp add: grows_refl)
next
  case (Cons c cs)
  show ?case
  proof (cases "m \<le> int (length matching)")
    case True
    then show ?thesis by (simp add: grows_refl)
  next
    case False
    show ?thesis
    proof (cases "stats c")
      case None
      with False show ?thesis by (simp add: grows_same_cache)
    next
      case (Some st)
      let ?s0 = "s\<lparr>stats_evals := stats_evals s + 2\<rparr>"
      have rest: "\<And>mt t. grows C t (snd (search_loop ql qw m cs mt t))"
        using Cons.prems by (simp add: Cons.IH)
      have 1: "grows C s (snd (commit_to_info c ?s0))"
        using Cons.prems by (intro grows_before [OF commit_to_info_grows]) simp_all
      have 2: "grows C s (snd (search_loop ql qw m cs mt ?s0))" for mt
        by (rule grows_before [OF rest]) simp
      have 3: "grows C s (snd (search_loop ql qw m cs mt (snd (commit_to_info c ?s0))))" for mt
        by (rule grows_trans [OF 1 rest])
      show ?thesis
        using False Some 2 3 by (simp add: Let_def case_prod_beta)
    qed
  qed
qed

lemma search_loop_file_cache:
  "file_cache (snd (search_loop ql qw m cs matching s)) = file_cache s"
proof (induction cs arbitrary: matching s)
  case Nil
  show ?case by simp
next
  case (Cons c cs)
  show ?case
  proof (cases "stats c")
    case None
    then show ?thesis by simp
  next
    case (Some st)
    then show ?thesis
      by (simp add: Let_def case_prod_beta Cons.IH commit_to_info_file_cache)
  qed
qed

text \<open>The state each public operation leaves behind.\<close>

lemma search_commits_snd:
  "snd (search_commits repo query m s) =
   snd (search_loop (py_lower query) (remdups (findall_words (py_lower query))) m
          (commits repo) [] s)"
  by (simp add: search_commits_def Let_def split: prod.splits sum.splits)

lemma get_repo_stats_snd:
  "snd (get_repo_stats repo s) =
   (if commits repo = [] then s else snd (commits_to_infos (take 20 (commits repo)) s))"
  by (simp add: get_repo_stats_def Let_def case_prod_beta)

lemma get_file_history_cache:
  "commit_cache (snd (get_file_history repo fp s)) =
   (case file_cache s fp of
      Some h \<Rightarrow> commit_cache s
    | None \<Rightarrow>
        (case path_commits repo (as_posix fp) of
           None \<Rightarrow> commit_cache s
         | Some cs \<Rightarrow> commit_cache (snd (commits_to_infos (take 10 cs) s))))"
  by (simp add: get_file_history_def Let_def case_prod_beta split: option.splits)

lemma get_current_context_snd:
  "snd (get_current_context repo s) =
   (case head_commit repo of Some c \<Rightarrow> snd (commit_to_info c s) | None \<Rightarrow> s)"
  by (simp add: get_current_context_def Let_def case_prod_beta split: option.splits)

lemma run_grows: "grows (repo_commits repo) s (run repo operation s)"
proof (cases operation)
  case GetRepoStats
  have "set (take 20 (commits repo)) \<subseteq> repo_commits repo"
    using set_take_subset [of 20 "commits repo"] by (auto simp: repo_commits_def)
  then show ?thesis
    using GetRepoStats by (simp add: get_repo_stats_snd grows_refl commits_to_infos_grows)
next
  case (SearchCommits query m)
  have "set (commits repo) \<subseteq> repo_commits repo"
    by (auto simp: repo_commits_def)
  then show ?thesis
    using SearchCommits by (simp add: search_commits_snd search_loop_grows)
next
  case (GetFileHistory fp)
  let ?t = "snd (get_file_history repo fp s)"
  have "grows (repo_commits repo) s ?t"
  proof (cases "file_cache s fp")
    case (Some h)
    then show ?thesis by (simp add: get_file_history_cache grows_same_cache)
  next
    case None
    show ?thesis
    proof (cases "path_commits repo (as_posix fp)")
      case no_commits: None
      with None show ?thesis by (simp add: get_file_history_cache grows_same_cache)
    next
      case (Some cs)
      have "set (take 10 cs) \<subseteq> repo_commits repo"
        using Some set_take_subset [of 10 cs] by (auto simp: repo_commits_def)
      then have "grows (repo_commits repo) s (snd (commits_to_infos (take 10 cs) s))"
        by (rule commits_to_infos_grows)
      then show ?thesis
        by (rule grows_after) (simp add: get_file_history_cache None Some)
    qed
  qed
  then show ?thesis
    using GetFileHistory by simp
next
  case (GetRecentCommits n)
  have "set (py_take n (commits repo)) \<subseteq> repo_commits repo"
    using set_take_subset [of _ "commits repo"] by (auto simp: repo_commits_def py_take_def)
  then show ?thesis
    using GetRecentCommits by (simp add: get_recent_commits_def commits_to_infos_grows)
next
  case GetCurrentContext
  show ?thesis
  proof (cases "head_commit repo")
    case None
    with GetCurrentContext show ?thesis by (simp add: get_current_context_snd grows_refl)
  next
    case (Some c)
    then have "c \<in> repo_commits repo" by (simp add: repo_commits_def)
    then have "grows (repo_commits repo) s (snd (commit_to_info c s))"
      by (rule commit_to_info_grows)
    with GetCurrentContext Some show ?thesis by (simp add: get_current_context_snd)
  qed
qed

lemma run_all_grows: "grows (repo_commits repo) s (run_all repo ops s)"
proof (induction ops arbitrary: s)
  case Nil
  show ?case by (simp add: grows_refl)
next
  case (Cons operation ops)
  from grows_trans [OF run_grows Cons.IH] show ?case by simp
qed

lemma derive_info_hash:
  "hash (derive_info c) = hexsha c \<and> short_hash (derive_info c) = take 8 (hexsha c)"
  by (simp add: derive_info_def Let_def split: option.splits)

lemma grows_cache_ok: "grows C s s' \<Longrightarrow> cache_ok s \<Longrightarrow> cache_ok s'"
  unfolding grows_def cache_ok_def using derive_info_hash by blast

subsection \<open>Claims on the Commit Record Builder and its cache\<close>

text \<open>
  Claim C8. Converting the same commit twice through one engine gives the same record,
  and the second request is a cache hit: it returns the state it was given, so it writes
  nothing and the count of \<^verbatim>\<open>commit.stats\<close> evaluations stays where the first
  request left it.
\<close>

theorem commit_to_info_twice:
  "commit_to_info c (snd (commit_to_info c s)) =
     (fst (commit_to_info c s), snd (commit_to_info c s))
   \<and> stats_evals (snd (commit_to_info c (snd (commit_to_info c s)))) =
     stats_evals (snd (commit_to_info c s))"
  by (simp add: commit_to_info_def Let_def split: option.splits)

text \<open>
  Claim C10. From a well-keyed commit cache, the record builder, every public operation
  and every sequence of public operations leave a well-keyed cache in which each earlier
  entry is still present and unchanged. The cache of a new engine is empty, hence
  well-keyed, so this holds for the lifetime of an engine.
\<close>

theorem commit_cache_invariant:
  assumes "cache_ok s"
  shows "cache_ok (snd (commit_to_info c s)) \<and> cache_kept s (snd (commit_to_info c s)) \<and>
         cache_ok (run repo operation s) \<and> cache_kept s (run repo operation s) \<and>
         cache_ok (run_all repo ops s) \<and> cache_kept s (run_all repo ops s)"
proof -
  have 1: "grows {c} s (snd (commit_to_info c s))"
    by (simp add: commit_to_info_grows)
  have 2: "grows (repo_commits repo) s (run repo operation s)"
    by (rule run_grows)
  have 3: "grows (repo_commits repo) s (run_all repo ops s)"
    by (rule run_all_grows)
  from grows_cache_ok [OF 1 assms] grows_cache_ok [OF 2 assms] grows_cache_ok [OF 3 assms] 1 2 3
  show ?thesis
    by (simp add: grows_def)
qed

theorem commit_cache_invariant_witness:
  "cache_ok init_engine \<and>
   cache_ok (run_all example_repo [GetRepoStats, SearchCommits ''redis'' 5] init_engine) \<and>
   cache_kept init_engine
     (run_all example_repo [GetRepoStats, SearchCommits ''redis'' 5] init_engine)"
proof -
  have h: "cache_ok init_engine"
    by (simp add: cache_ok_def init_engine_def)
  from commit_cache_invariant [OF h, of commit_a example_repo GetRepoStats
      "[GetRepoStats, SearchCommits ''redis'' 5]"] h
  show ?thesis by simp
qed

section \<open>Properties of the Repository Statistics Aggregator\<close>

text \<open>
  Claim C5. When the commit log enumerates no commit, \<^verbatim>\<open>get_repo_stats\<close> returns
  (it has no way to raise) the statistics with every count zero, no primary language, no
  languages and no recent activity, with the number of branches and the name of the
  current branch, and leaves the engine as it was.
\<close>

theorem empty_log_repo_stats:
  "commits repo = [] \<Longrightarrow>
   get_repo_stats repo s =
     (\<lparr>commit_count = 0, file_count = 0, contributor_count = 0, age_days = 0,
       primary_language = None, languages = [], recent_activity = [],
       branch_count = length (branches repo),
       current_branch = (case active_branch repo of Some name \<Rightarrow> name | None \<Rightarrow> ''unknown'')\<rparr>,
      s)"
  by (simp add: get_repo_stats_def current_branch_name_def)

theorem empty_log_repo_stats_witness:
  "commits empty_repo = [] \<and>
   get_repo_stats empty_repo init_engine =
     (\<lparr>commit_count = 0, file_count = 0, contributor_count = 0, age_days = 0,
       primary_language = None, languages = [], recent_activity = [],
       branch_count = 0, current_branch = ''main''\<rparr>, init_engine)"
  using empty_log_repo_stats [of empty_repo init_engine] by (simp add: empty_repo_def)

section \<open>Properties of the File History Tracker\<close>

lemma file_ok_init: "file_ok repo init_engine"
  by (simp add: file_ok_def init_engine_def)

lemma file_ok_frame: "file_cache s' = file_cache s \<Longrightarrow> file_ok repo s \<Longrightarrow> file_ok repo s'"
  by (simp add: file_ok_def)

lemma get_file_history_hit:
  "file_cache s fp = Some h \<Longrightarrow> get_file_history repo fp s = (h, s)"
  by (simp add: get_file_history_def)

lemma get_file_history_miss_fst:
  "file_cache s fp = None \<Longrightarrow>
   history_matches (path_log repo fp) (fst (get_file_history repo fp s))"
  by (simp add: get_file_history_def path_log_def history_matches_def Let_def case_prod_beta
      split: option.splits)

lemma get_file_history_miss_cache:
  "file_cache s fp = None \<Longrightarrow>
   file_cache (snd (get_file_history repo fp s)) =
     (file_cache s)(fp \<mapsto> fst (get_file_history repo fp s))"
  by (simp add: get_file_history_def Let_def case_prod_beta commits_to_infos_file_cache
      split: option.splits)

lemma get_file_history_matches:
  "file_ok repo s \<Longrightarrow> history_matches (path_log repo fp) (fst (get_file_history repo fp s))"
  by (cases "file_cache s fp")
     (simp_all add: get_file_history_miss_fst get_file_history_hit file_ok_def)

lemma get_file_history_file_ok:
  assumes "file_ok repo s"
  shows "file_ok repo (snd (get_file_history repo fp s))"
proof (cases "file_cache s fp")
  case None
  from get_file_history_miss_fst [OF None] get_file_history_miss_cache [OF None] assms
  show ?thesis by (simp add: file_ok_def)
next
  case (Some h)
  with assms show ?thesis by (simp add: get_file_history_hit)
qed

lemma run_file_ok: "file_ok repo s \<Longrightarrow> file_ok repo (run repo operation s)"
proof (cases operation)
  case GetRepoStats
  assume "file_ok repo s"
  then show ?thesis
    using GetRepoStats by (simp add: get_repo_stats_snd commits_to_infos_file_cache file_ok_frame)
next
  case (SearchCommits query m)
  assume "file_ok repo s"
  then show ?thesis
    using SearchCommits by (simp add: search_commits_snd search_loop_file_cache file_ok_frame)
next
  case (GetFileHistory fp)
  assume "file_ok repo s"
  then show ?thesis
    using GetFileHistory by (simp add: get_file_history_file_ok)
next
  case (GetRecentCommits n)
  assume "file_ok repo s"
  then show ?thesis
    using GetRecentCommits
    by (simp add: get_recent_commits_def commits_to_infos_file_cache file_ok_frame)
next
  case GetCurrentContext
  assume "file_ok repo s"
  then show ?thesis
    using GetCurrentContext
    by (cases "head_commit repo")
       (simp_all add: get_current_context_snd commit_to_info_file_cache file_ok_frame)
qed

lemma run_all_file_ok: "file_ok repo s \<Longrightarrow> file_ok repo (run_all repo ops s)"
  by (induction ops arbitrary: s) (simp_all add: run_file_ok)

lemma history_of_engine:
  "history_matches (path_log repo fp)
     (fst (get_file_history repo fp (run_all repo ops init_engine)))"
  by (rule get_file_history_matches [OF run_all_file_ok [OF file_ok_init]])

lemma newest_first_last_hd:
  assumes "newest_first cs" and "cs \<noteq> []"
  shows "committed_date (last cs) \<le> committed_date (hd cs)"
proof (cases cs)
  case Nil
  with assms(2) show ?thesis by simp
next
  case (Cons x xs)
  show ?thesis
  proof (cases "xs = []")
    case True
    with Cons show ?thesis by simp
  next
    case False
    then have "last xs \<in> set xs" by simp
    with assms(1) Cons False show ?thesis by (simp add: newest_first_def)
  qed
qed

text \<open>
  Claim C6. In an engine after any sequence of public operations on the repository: when
  the enumeration of the commits of a path raises the git command error or yields no
  commit, \<^verbatim>\<open>get_file_history\<close> returns (it has no way to raise) a history with no
  commits, no creation date, no last-modified date, no authors and no recent changes.
\<close>

theorem absent_path_history:
  assumes "path_commits repo (as_posix fp) = None \<or> path_commits repo (as_posix fp) = Some []"
    and "get_file_history repo fp (run_all repo ops init_engine) = (h, s')"
  shows "total_commits h = 0 \<and> creation_date h = None \<and> last_modified h = None \<and>
         authors h = [] \<and> recent_changes h = []"
proof -
  have "path_log repo fp = []"
    using assms(1) by (auto simp: path_log_def)
  moreover have "history_matches (path_log repo fp) h"
    using history_of_engine [of repo fp ops] assms(2) by simp
  ultimately show ?thesis by (simp add: history_matches_def)
qed

theorem absent_path_history_witness:
  "path_commits example_repo (as_posix ''gone.txt'') = None \<and>
   total_commits (fst (get_file_history example_repo ''gone.txt'' init_engine)) = 0 \<and>
   creation_date (fst (get_file_history example_repo ''gone.txt'' init_engine)) = None \<and>
   last_modified (fst (get_file_history example_repo ''gone.txt'' init_engine)) = None \<and>
   authors (fst (get_file_history example_repo ''gone.txt'' init_engine)) = [] \<and>
   recent_changes (fst (get_file_history example_repo ''gone.txt'' init_engine)) = []"
proof -
  have p: "as_posix ''gone.txt'' = ''gone.txt''"
    by (simp add: as_posix_def path_root_def path_parts_def)
  have h: "path_commits example_repo (as_posix ''gone.txt'') = None"
    by (simp add: p example_repo_def)
  from absent_path_history [of example_repo "''gone.txt''" "[]"
      "fst (get_file_history example_repo ''gone.txt'' init_engine)"
      "snd (get_file_history example_repo ''gone.txt'' init_engine)"] h
  show ?thesis by simp
qed

text \<open>
  Claim C7. In an engine after any sequence of public operations on the repository: when
  the commits of a path are enumerated newest first and the history returned by
  \<^verbatim>\<open>get_file_history\<close> has both a creation and a last-modified time stamp, the
  creation time stamp is not later than the last-modified one.
\<close>

theorem creation_before_last_modified:
  assumes "newest_first (path_log repo fp)"
    and "get_file_history repo fp (run_all repo ops init_engine) = (h, s')"
    and "creation_date h = Some created" and "last_modified h = Some modified"
  shows "created \<le> modified"
proof -
  have m: "history_matches (path_log repo fp) h"
    using history_of_engine [of repo fp ops] assms(2) by simp
  show ?thesis
  proof (cases "path_log repo fp = []")
    case True
    with m assms(3) show ?thesis by (simp add: history_matches_def)
  next
    case False
    with m assms(3,4) newest_first_last_hd [OF assms(1) False] show ?thesis
      by (simp add: history_matches_def)
  qed
qed

theorem creation_before_last_modified_witness:
  "newest_first (path_log example_repo ''src/cache.py'') \<and>
   creation_date (fst (get_file_history example_repo ''src/cache.py'' init_engine)) =
     Some 1700000100 \<and>
   last_modified (fst (get_file_history example_repo ''src/cache.py'' init_engine)) =
     Some 1700000300 \<and>
   (1700000100 :: int) \<le> 1700000300"
proof -
  have p: "as_posix ''src/cache.py'' = ''src/cache.py''"
    by (simp add: as_posix_def path_root_def path_parts_def)
  have l: "path_log example_repo ''src/cache.py'' = [commit_a, commit_c]"
    by (simp add: path_log_def p example_repo_def)
  have n: "newest_first (path_log example_repo ''src/cache.py'')"
    by (simp add: l newest_first_def commit_a_def commit_c_def)
  have c: "creation_date (fst (get_file_history example_repo ''src/cache.py'' init_engine)) =
      Some 1700000100"
    using history_of_engine [of example_repo "''src/cache.py''" "[]"]
    by (simp add: l history_matches_def commit_c_def)
  have m: "last_modified (fst (get_file_history example_repo ''src/cache.py'' init_engine)) =
      Some 1700000300"
    using history_of_engine [of example_repo "''src/cache.py''" "[]"]
    by (simp add: l history_matches_def commit_a_def)
  from creation_before_last_modified [of example_repo "''src/cache.py''" "[]"
      "fst (get_file_history example_repo ''src/cache.py'' init_engine)"
      "snd (get_file_history example_repo ''src/cache.py'' init_engine)"
      1700000100 1700000300] n c m
  show ?thesis by simp
qed

section \<open>Properties of Commit Relevance Search\<close>

subsection \<open>The cache stays faithful to the repository\<close>

lemma cache_consistent_init: "cache_consistent repo init_engine"
  by (simp add: cache_consistent_def init_engine_def)

lemma grows_consistent:
  assumes "ids_identify repo" and "grows (repo_commits repo) s s'" and "cache_consistent repo s"
  shows "cache_consistent repo s'"
  unfolding cache_consistent_def
proof (intro ballI allI impI)
  fix c r
  assume c: "c \<in> repo_commits repo" and r: "commit_cache s' (hexsha c) = Some r"
  from assms(2) r have "commit_cache s (hexsha c) = Some r \<or>
      (\<exists>c'\<in>repo_commits repo. hexsha c' = hexsha c \<and> r = derive_info c')"
    by (simp add: grows_def)
  then show "r = derive_info c"
  proof
    assume "commit_cache s (hexsha c) = Some r"
    with assms(3) c show ?thesis by (simp add: cache_consistent_def)
  next
    assume "\<exists>c'\<in>repo_commits repo. hexsha c' = hexsha c \<and> r = derive_info c'"
    then obtain c' where "c' \<in> repo_commits repo" "hexsha c' = hexsha c" "r = derive_info c'"
      by blast
    with assms(1) c show ?thesis by (auto simp: ids_identify_def)
  qed
qed

lemma run_all_consistent:
  "ids_identify repo \<Longrightarrow> cache_consistent repo (run_all repo ops init_engine)"
  by (rule grows_consistent [OF _ run_all_grows cache_consistent_init])

lemma commit_to_info_consistent:
  assumes "cache_consistent repo s" and "c \<in> repo_commits repo"
  shows "fst (commit_to_info c s) = derive_info c"
  using assms by (auto simp: commit_to_info_def cache_consistent_def Let_def split: option.splits)

subsection \<open>What the loop collects\<close>

text \<open>
  With statistics available for the commits still to scan, the loop adds to the list
  collected so far the next positively scored commits, until the list has \<open>m\<close>
  elements.
\<close>

lemma search_loop_collects:
  assumes "ids_identify repo"
  shows "set cs \<subseteq> repo_commits repo \<Longrightarrow> \<forall>c\<in>set cs. stats c \<noteq> None \<Longrightarrow>
    cache_consistent repo s \<Longrightarrow>
    fst (search_loop (py_lower query) (remdups (findall_words (py_lower query))) m cs
           matching s) =
      Inr (matching @ take (nat (m - int (length matching))) (scored_commits query cs))"
proof (induction cs arbitrary: matching s)
  case Nil
  show ?case by (simp add: scored_commits_def)
next
  case (Cons c cs)
  let ?ql = "py_lower query" and ?qw = "remdups (findall_words (py_lower query))"
  show ?case
  proof (cases "m \<le> int (length matching)")
    case True
    then show ?thesis by simp
  next
    case False
    from Cons.prems(2) obtain st where st: "stats c = Some st" by auto
    let ?s0 = "s\<lparr>stats_evals := stats_evals s + 2\<rparr>"
    have c: "c \<in> repo_commits repo" using Cons.prems(1) by simp
    have s0: "cache_consistent repo ?s0"
      using Cons.prems(3) by (simp add: cache_consistent_def)
    have rel: "score_commit ?ql ?qw (commit_message c) (files st) = relevance query c"
      by (simp add: relevance_def changed_files_def st)
    show ?thesis
    proof (cases "0 < relevance query c")
      case True
      have info: "fst (commit_to_info c ?s0) = derive_info c"
        by (rule commit_to_info_consistent [OF s0 c])
      have "grows (repo_commits repo) ?s0 (snd (commit_to_info c ?s0))"
        by (rule commit_to_info_grows [OF c])
      then have s1: "cache_consistent repo (snd (commit_to_info c ?s0))"
        by (rule grows_consistent [OF assms _ s0])
      have ih: "fst (search_loop ?ql ?qw m cs (matching @ [(relevance query c, derive_info c)])
                  (snd (commit_to_info c ?s0))) =
          Inr ((matching @ [(relevance query c, derive_info c)]) @
               take (nat (m - int (length (matching @ [(relevance query c, derive_info c)]))))
                 (scored_commits query cs))"
        using Cons.prems(1,2) s1 by (intro Cons.IH) simp_all
      have n: "nat (m - int (length matching)) = Suc (nat (m - int (length matching) - 1))"
        using False by simp
      have sc: "scored_commits query (c # cs) =
          (relevance query c, derive_info c) # scored_commits query cs"
        using True by (simp add: scored_commits_def)
      have step: "search_loop ?ql ?qw m (c # cs) matching s =
          search_loop ?ql ?qw m cs (matching @ [(relevance query c, fst (commit_to_info c ?s0))])
            (snd (commit_to_info c ?s0))"
        using False True st rel by (simp add: Let_def case_prod_beta)
      show ?thesis
        unfolding step info ih sc n by (simp add: algebra_simps)
    next
      case no_match: False
      have ih: "fst (search_loop ?ql ?qw m cs matching ?s0) =
          Inr (matching @ take (nat (m - int (length matching))) (scored_commits query cs))"
        using Cons.prems(1,2) s0 by (intro Cons.IH) simp_all
      have sc: "scored_commits query (c # cs) = scored_commits query cs"
        using no_match by (simp add: scored_commits_def)
      have step: "search_loop ?ql ?qw m (c # cs) matching s =
          search_loop ?ql ?qw m cs matching ?s0"
        using False no_match st rel by (simp add: Let_def)
      show ?thesis
        unfolding step ih sc by simp
    qed
  qed
qed

lemma search_commits_fst:
  "fst (search_commits repo query m s) =
   (case fst (search_loop (py_lower query) (remdups (findall_words (py_lower query))) m
               (commits repo) [] s) of
      Inl e \<Rightarrow> Inl e
    | Inr matching \<Rightarrow> Inr (map snd (sort_by_score matching)))"
  by (simp add: search_commits_def Let_def split: prod.splits sum.splits)

lemma commits_in_repo: "set (commits repo) \<subseteq> repo_commits repo"
  by (auto simp: repo_commits_def)

subsection \<open>Claim C1: the scan stops at the maximum\<close>

lemma redis_timeout_query:
  "py_lower ''redis timeout'' = ''redis timeout''"
  "remdups (findall_words ''redis timeout'') = [''redis'', ''timeout'']"
  by (simp_all add: py_lower_def lower_char_def findall_words_def is_word_def)

lemma score_new:
  "score_commit ''redis timeout'' [''redis'', ''timeout''] ''raise timeout'' [''src/net.py''] = 2"
  by (simp add: score_commit_def commit_text_of_def py_lower_def lower_char_def
      findall_words_def is_word_def Let_def)

lemma score_old:
  "score_commit ''redis timeout'' [''redis'', ''timeout''] ''fix redis timeout''
     [''src/cache.py''] = 14"
  by (simp add: score_commit_def commit_text_of_def py_lower_def lower_char_def
      findall_words_def is_word_def Let_def)

lemma relevance_new: "relevance ''redis timeout'' commit_new = 2"
  by (simp add: relevance_def redis_timeout_query commit_new_def changed_files_def score_new)

lemma relevance_old: "relevance ''redis timeout'' commit_old = 14"
  by (simp add: relevance_def redis_timeout_query commit_old_def changed_files_def score_old)

text \<open>
  Claim C1 as stated fails. On the log of \<open>commit_new\<close> (score 2) followed by the older
  \<open>commit_old\<close> (score 14), with a maximum of 1, \<^verbatim>\<open>search_commits\<close> leaves its loop
  after the first match and returns \<open>commit_new\<close>; scoring the whole stream, sorting and
  truncating gives \<open>commit_old\<close>.
\<close>

theorem search_commits_counterexample:
  "fst (search_commits two_repo ''redis timeout'' 1 init_engine) = Inr [derive_info commit_new] \<and>
   spec_search_commits two_repo ''redis timeout'' 1 = [derive_info commit_old] \<and>
   derive_info commit_new \<noteq> derive_info commit_old"
proof (intro conjI)
  show "fst (search_commits two_repo ''redis timeout'' 1 init_engine) =
      Inr [derive_info commit_new]"
    by (simp add: search_commits_def redis_timeout_query two_repo_def commit_new_def
        commit_old_def score_new commit_to_info_def init_engine_def sort_by_score_def Let_def)
  show "spec_search_commits two_repo ''redis timeout'' 1 = [derive_info commit_old]"
    by (simp add: spec_search_commits_def scored_commits_def relevance_new relevance_old
        two_repo_def sort_by_score_def)
  show "derive_info commit_new \<noteq> derive_info commit_old"
    by (simp add: derive_info_def commit_new_def commit_old_def)
qed

text \<open>
  Claim C1, amended. In an engine after any sequence of public operations, on a
  repository whose commit ids identify its commits and whose commits all have statistics,
  \<^verbatim>\<open>search_commits\<close> returns the first \<open>m\<close> positively scored commits of the
  newest-first enumeration, sorted by score, highest first, commits of equal score in the
  order of the enumeration. When the log has at most \<open>m\<close> positively scored commits,
  that is the sequence the specification describes.
\<close>

theorem search_commits_first_matches:
  assumes "ids_identify repo" and "\<forall>c\<in>set (commits repo). stats c \<noteq> None"
  shows "fst (search_commits repo query m (run_all repo ops init_engine)) =
           Inr (map snd (sort_by_score (take (nat m) (scored_commits query (commits repo)))))
         \<and> (length (scored_commits query (commits repo)) \<le> nat m \<longrightarrow>
              fst (search_commits repo query m (run_all repo ops init_engine)) =
                Inr (spec_search_commits repo query m))"
proof -
  let ?scored = "scored_commits query (commits repo)"
  from search_loop_collects [OF assms(1) commits_in_repo assms(2)
      run_all_consistent [OF assms(1)], of query m "[]" ops]
  have 1: "fst (search_commits repo query m (run_all repo ops init_engine)) =
      Inr (map snd (sort_by_score (take (nat m) ?scored)))"
    by (simp add: search_commits_fst)
  have 2: "map snd (sort_by_score (take (nat m) ?scored)) = spec_search_commits repo query m"
    if "length ?scored \<le> nat m"
  proof -
    from that have "length (map snd (sort_by_score ?scored)) \<le> nat m"
      by (simp add: sort_by_score_def)
    with that show ?thesis
      by (simp add: spec_search_commits_def)
  qed
  from 1 2 show ?thesis by simp
qed

theorem search_commits_first_matches_witness:
  "ids_identify two_repo \<and> commits two_repo = [commit_new, commit_old] \<and>
   stats commit_new \<noteq> None \<and> stats commit_old \<noteq> None \<and>
   fst (search_commits two_repo ''redis timeout'' 1 init_engine) =
     Inr (map snd (sort_by_score
       (take (nat 1) (scored_commits ''redis timeout'' (commits two_repo))))) \<and>
   fst (search_commits two_repo ''redis timeout'' 2 init_engine) =
     Inr (spec_search_commits two_repo ''redis timeout'' 2)"
proof -
  have i: "ids_identify two_repo"
    by (simp add: ids_identify_def repo_commits_def two_repo_def commit_new_def commit_old_def)
  have a: "\<forall>c\<in>set (commits two_repo). stats c \<noteq> None"
    by (simp add: two_repo_def commit_new_def commit_old_def)
  have l: "commits two_repo = [commit_new, commit_old]"
    by (simp add: two_repo_def)
  have n: "length (scored_commits ''redis timeout'' (commits two_repo)) \<le> nat 2"
    by (simp add: l scored_commits_def relevance_new relevance_old)
  have s: "stats commit_new \<noteq> None" "stats commit_old \<noteq> None"
    by (simp_all add: commit_new_def commit_old_def)
  have r: "run_all two_repo [] init_engine = init_engine"
    by simp
  have w1: "fst (search_commits two_repo ''redis timeout'' 1 init_engine) =
      Inr (map snd (sort_by_score
        (take (nat 1) (scored_commits ''redis timeout'' (commits two_repo)))))"
    using search_commits_first_matches [OF i a, of "''redis timeout''" 1 "[]"]
    unfolding r by blast
  have w2: "fst (search_commits two_repo ''redis timeout'' 2 init_engine) =
      Inr (spec_search_commits two_repo ''redis timeout'' 2)"
    using search_commits_first_matches [OF i a, of "''redis timeout''" 2 "[]"] n
    unfolding r by blast
  from i l s w1 w2 show ?thesis by blast
qed

subsection \<open>Claim C2: the ranking example\<close>

lemma py_lower_append: "py_lower (xs @ ys) = py_lower xs @ py_lower ys"
  by (simp add: py_lower_def)

lemma py_lower_join: "py_lower (py_join sep fs) = py_join (py_lower sep) (map py_lower fs)"
  by (induction sep fs rule: py_join.induct) (simp_all add: py_lower_append, simp add: py_lower_def)

lemma starts_with_append: "starts_with q xs \<Longrightarrow> starts_with q (xs @ ys)"
  by (induction q xs rule: starts_with.induct) simp_all

lemma str_in_empty: "str_in [] s"
  by (cases s) simp_all

lemma str_in_append_left: "str_in q xs \<Longrightarrow> str_in q (xs @ ys)"
proof (induction xs)
  case Nil
  then show ?case by (simp add: str_in_empty)
next
  case (Cons x xs)
  then show ?case
    using starts_with_append [of q "x # xs" ys] by auto
qed

lemma str_in_append_right: "str_in q ys \<Longrightarrow> str_in q (xs @ ys)"
  by (induction xs) (auto simp: str_in_empty)

lemma str_in_join: "f \<in> set fs \<Longrightarrow> str_in q f \<Longrightarrow> str_in q (py_join sep fs)"
  by (induction sep fs rule: py_join.induct)
     (auto intro: str_in_append_left str_in_append_right)

text \<open>A character that is no word character ends the word before it.\<close>

lemma words_from_separator:
  "\<not> is_word d \<Longrightarrow> words_from w (xs @ d # ys) = words_from w xs @ words_from [] ys"
  by (induction xs arbitrary: w) simp_all

lemma findall_words_separator:
  "\<not> is_word d \<Longrightarrow> findall_words (xs @ d # ys) = findall_words xs @ findall_words ys"
  by (simp add: findall_words_def words_from_separator)

lemma findall_words_join:
  "findall_words (py_join '' '' fs) = concat (map findall_words fs)"
proof (induction "'' ''" fs rule: py_join.induct)
  case 1
  show ?case by (simp add: findall_words_def)
next
  case (2 x)
  show ?case by simp
next
  case (3 x y ys)
  have "\<not> is_word CHR '' ''" by (simp add: is_word_def)
  from findall_words_separator [OF this, of x "py_join '' '' (y # ys)"] 3
  show ?case by simp
qed

lemma commit_text_split:
  "commit_text_of msg fs = py_lower msg @ CHR '' '' # py_join '' '' (map py_lower fs)"
proof -
  have sp: "py_lower '' '' = '' ''" by (simp add: py_lower_def lower_char_def)
  have "commit_text_of msg fs = py_lower msg @ py_lower '' '' @ py_lower (py_join '' '' fs)"
    by (simp only: commit_text_of_def py_lower_append)
  then show ?thesis
    by (simp add: py_lower_join sp)
qed

text \<open>The words of the haystack are the words of the message and the words of each path.\<close>

lemma commit_words:
  "findall_words (commit_text_of msg fs) =
   findall_words (py_lower msg) @ concat (map (\<lambda>f. findall_words (py_lower f)) fs)"
proof -
  have "\<not> is_word CHR '' ''" by (simp add: is_word_def)
  from findall_words_separator [OF this, of "py_lower msg" "py_join '' '' (map py_lower fs)"]
  show ?thesis
    by (simp add: commit_text_split findall_words_join comp_def)
qed

lemma commit_text_message: "str_in q (py_lower msg) \<Longrightarrow> str_in q (commit_text_of msg fs)"
  by (simp add: commit_text_split str_in_append_left)

lemma commit_text_file:
  assumes "f \<in> set fs" and "str_in q (py_lower f)"
  shows "str_in q (commit_text_of msg fs)"
proof -
  have "str_in q (py_join '' '' (map py_lower fs))"
    using assms by (intro str_in_join [of "py_lower f"]) simp_all
  then have "str_in q (CHR '' '' # py_join '' '' (map py_lower fs))"
    using str_in_append_right [of q _ "'' ''"] by simp
  then show ?thesis
    unfolding commit_text_split by (rule str_in_append_right)
qed

lemma redis_query:
  "py_lower ''redis'' = ''redis''" "remdups (findall_words ''redis'') = [''redis'']"
  by (simp_all add: py_lower_def lower_char_def findall_words_def is_word_def)

lemma score_message_only:
  assumes "\<forall>f\<in>set fs. \<not> str_in ''redis'' (py_lower f)"
  shows "score_commit ''redis'' [''redis''] ''fix redis timeout'' fs = 12"
proof -
  have m: "py_lower ''fix redis timeout'' = ''fix redis timeout''"
    by (simp add: py_lower_def lower_char_def)
  have "str_in ''redis'' (py_lower ''fix redis timeout'')"
    by (simp add: m)
  then have t: "str_in ''redis'' (commit_text_of ''fix redis timeout'' fs)"
    by (rule commit_text_message)
  have w: "''redis'' \<in> set (findall_words (commit_text_of ''fix redis timeout'' fs))"
    by (simp add: commit_words m) (simp add: findall_words_def is_word_def)
  have p: "filter (\<lambda>fp. list_ex (\<lambda>w. str_in w (py_lower fp)) [''redis'']) fs = []"
    using assms by (auto simp: filter_empty_conv)
  show ?thesis
    using t w p by (simp add: score_commit_def Let_def)
qed

lemma score_path_match:
  assumes "''redis/config.py'' \<in> set fs"
  shows "13 \<le> score_commit ''redis'' [''redis''] msg fs"
proof -
  have l: "py_lower ''redis/config.py'' = ''redis/config.py''"
    by (simp add: py_lower_def lower_char_def)
  have f: "str_in ''redis'' (py_lower ''redis/config.py'')"
    by (simp add: l)
  have t: "str_in ''redis'' (commit_text_of msg fs)"
    by (rule commit_text_file [OF assms f])
  have "''redis'' \<in> set (findall_words (py_lower ''redis/config.py''))"
    by (simp add: l findall_words_def is_word_def)
  then have w: "''redis'' \<in> set (findall_words (commit_text_of msg fs))"
    using assms by (auto simp: commit_words)
  have "filter (\<lambda>fp. list_ex (\<lambda>w. str_in w (py_lower fp)) [''redis'']) fs \<noteq> []"
    using assms f by (auto simp: filter_empty_conv)
  then have p: "1 \<le> length (filter (\<lambda>fp. list_ex (\<lambda>w. str_in w (py_lower fp)) [''redis'']) fs)"
    by (simp add: Suc_le_eq)
  show ?thesis
    using t w p by (simp add: score_commit_def Let_def)
qed

text \<open>
  Claim C2 as stated fails. On the log of A (\<open>commit_a\<close>, message
  \<open>fix redis timeout\<close>, one changed file without \<open>redis\<close> in its path) and B
  (\<open>commit_b\<close>, message \<open>update docs\<close>, changed file \<open>redis/config.py\<close>), with
  the query \<open>redis\<close> and a maximum of 2, A scores 12 and B scores 13, and
  \<^verbatim>\<open>search_commits\<close> returns B before A: the haystack of a commit holds its file
  paths, so the path of B earns the substring and the word components as well.
\<close>

theorem redis_ranking_counterexample:
  "relevance ''redis'' commit_a = 12 \<and> relevance ''redis'' commit_b = 13 \<and>
   fst (search_commits redis_repo ''redis'' 2 init_engine) =
     Inr [derive_info commit_b, derive_info commit_a] \<and>
   derive_info commit_a \<noteq> derive_info commit_b"
proof (intro conjI)
  have a: "score_commit ''redis'' [''redis''] ''fix redis timeout'' [''src/cache.py''] = 12"
    by (simp add: score_commit_def commit_text_of_def py_lower_def lower_char_def
        findall_words_def is_word_def Let_def)
  have b: "score_commit ''redis'' [''redis''] ''update docs'' [''redis/config.py''] = 13"
    by (simp add: score_commit_def commit_text_of_def py_lower_def lower_char_def
        findall_words_def is_word_def Let_def)
  show "relevance ''redis'' commit_a = 12"
    by (simp add: relevance_def redis_query commit_a_def changed_files_def a)
  show "relevance ''redis'' commit_b = 13"
    by (simp add: relevance_def redis_query commit_b_def changed_files_def b)
  show "fst (search_commits redis_repo ''redis'' 2 init_engine) =
      Inr [derive_info commit_b, derive_info commit_a]"
    by (simp add: search_commits_def redis_query redis_repo_def commit_a_def commit_b_def a b
        commit_to_info_def init_engine_def sort_by_score_def Let_def)
  show "derive_info commit_a \<noteq> derive_info commit_b"
    by (simp add: derive_info_def commit_a_def commit_b_def)
qed

text \<open>
  Claim C2, amended. On a log of the two commits A and B, in either order, with a maximum
  of at least 2 and the query \<open>redis\<close>: A, whose message is \<open>fix redis timeout\<close> and
  whose changed paths do not contain \<open>redis\<close>, scores exactly 12; B, whose message is
  \<open>update docs\<close> and which touches \<open>redis/config.py\<close>, scores at least 13; and
  \<^verbatim>\<open>search_commits\<close> returns B strictly above A.
\<close>

theorem redis_ranking:
  assumes ids: "ids_identify repo"
    and log: "commits repo = [A, B] \<or> commits repo = [B, A]"
    and A: "commit_message A = ''fix redis timeout''" "stats A = Some stA"
      "\<forall>f\<in>set (files stA). \<not> str_in ''redis'' (py_lower f)"
    and B: "commit_message B = ''update docs''" "stats B = Some stB"
      "''redis/config.py'' \<in> set (files stB)"
    and m: "2 \<le> m"
  shows "relevance ''redis'' A = 12 \<and> 13 \<le> relevance ''redis'' B \<and>
         fst (search_commits repo ''redis'' m (run_all repo ops init_engine)) =
           Inr [derive_info B, derive_info A]"
proof -
  have a: "relevance ''redis'' A = 12"
    using score_message_only [OF A(3)] by (simp add: relevance_def redis_query changed_files_def A)
  have b: "13 \<le> relevance ''redis'' B"
    using score_path_match [OF B(3)] by (simp add: relevance_def redis_query changed_files_def B)
  have st: "\<forall>c\<in>set (commits repo). stats c \<noteq> None"
    using log A(2) B(2) by auto
  have n: "nat m = Suc (Suc (nat (m - 2)))"
    using m by simp
  have "fst (search_commits repo ''redis'' m (run_all repo ops init_engine)) =
      Inr (map snd (sort_by_score (take (nat m) (scored_commits ''redis'' (commits repo)))))"
    using search_loop_collects [OF ids commits_in_repo st run_all_consistent [OF ids],
        of "''redis''" m "[]" ops]
    by (simp add: search_commits_fst)
  also have "map snd (sort_by_score (take (nat m) (scored_commits ''redis'' (commits repo)))) =
      [derive_info B, derive_info A]"
    using log a b by (auto simp: scored_commits_def n sort_by_score_def)
  finally show ?thesis
    using a b by simp
qed

theorem redis_ranking_witness:
  "ids_identify redis_repo \<and> commits redis_repo = [commit_a, commit_b] \<and>
   commit_message commit_a = ''fix redis timeout'' \<and>
   changed_files commit_a = [''src/cache.py''] \<and>
   \<not> str_in ''redis'' (py_lower ''src/cache.py'') \<and>
   commit_message commit_b = ''update docs'' \<and>
   ''redis/config.py'' \<in> set (changed_files commit_b) \<and>
   relevance ''redis'' commit_a = 12 \<and> 13 \<le> relevance ''redis'' commit_b \<and>
   fst (search_commits redis_repo ''redis'' 2 init_engine) =
     Inr [derive_info commit_b, derive_info commit_a]"
proof -
  let ?stA = "\<lparr>files = [''src/cache.py''], total_insertions = 3, total_deletions = 1\<rparr>"
  let ?stB = "\<lparr>files = [''redis/config.py''], total_insertions = 2, total_deletions = 0\<rparr>"
  have i: "ids_identify redis_repo"
    by (simp add: ids_identify_def repo_commits_def redis_repo_def commit_a_def commit_b_def)
  have l: "commits redis_repo = [commit_a, commit_b]"
    by (simp add: redis_repo_def)
  have a1: "commit_message commit_a = ''fix redis timeout''" and a2: "stats commit_a = Some ?stA"
    by (simp_all add: commit_a_def)
  have a3: "\<forall>f\<in>set (files ?stA). \<not> str_in ''redis'' (py_lower f)"
    by (simp add: py_lower_def lower_char_def)
  have b1: "commit_message commit_b = ''update docs''" and b2: "stats commit_b = Some ?stB"
    by (simp_all add: commit_b_def)
  have b3: "''redis/config.py'' \<in> set (files ?stB)"
    by simp
  from redis_ranking [OF i disjI1 [OF l] a1 a2 a3 b1 b2 b3, of 2 "[]"] i l a1 a2 a3 b1 b2 b3
  show ?thesis by (simp add: changed_files_def)
qed

subsection \<open>Claim C3: unavailable statistics\<close>

text \<open>
  Claim C3 holds for the record builder and the statistics aggregator and fails for the
  search. On the log of the one commit \<open>commit_c\<close>, whose statistics cannot be computed,
  \<^verbatim>\<open>_commit_to_info\<close> and \<^verbatim>\<open>get_repo_stats\<close> answer with the record of the
  empty file list and zero counts, while \<^verbatim>\<open>search_commits\<close>, which reads
  \<^verbatim>\<open>commit.stats\<close> outside any \<^verbatim>\<open>try\<close>, lets the exception out.
\<close>

theorem unavailable_stats_escape_search:
  "fst (commit_to_info commit_c init_engine) =
     \<lparr>hash = ''c3d4e5f60718293a'', short_hash = ''c3d4e5f6'', message = ''initial import'',
      author = ''Ann'', email = ''ann@example.org'', date = 1700000100,
      files_changed = [], insertions = 0, deletions = 0\<rparr> \<and>
   recent_activity (fst (get_repo_stats unstat_repo init_engine)) =
     [fst (commit_to_info commit_c init_engine)] \<and>
   fst (search_commits unstat_repo ''import'' 10 init_engine) = Inl StatsUnavailable"
proof (intro conjI)
  show "fst (commit_to_info commit_c init_engine) =
     \<lparr>hash = ''c3d4e5f60718293a'', short_hash = ''c3d4e5f6'', message = ''initial import'',
      author = ''Ann'', email = ''ann@example.org'', date = 1700000100,
      files_changed = [], insertions = 0, deletions = 0\<rparr>"
    by (simp add: commit_to_info_def derive_info_def init_engine_def commit_c_def py_strip_def
        is_space_def Let_def)
  show "recent_activity (fst (get_repo_stats unstat_repo init_engine)) =
     [fst (commit_to_info commit_c init_engine)]"
    by (simp add: get_repo_stats_def unstat_repo_def case_prod_beta Let_def)
  show "fst (search_commits unstat_repo ''import'' 10 init_engine) = Inl StatsUnavailable"
    by (simp add: search_commits_def unstat_repo_def commit_c_def Let_def)
qed

section \<open>Properties of Memory Relevance Search\<close>

lemma score_memories_eq:
  "score_memories ql memories scored = scored @ scored_memories ql memories"
  by (induction memories arbitrary: scored) (simp_all add: scored_memories_def Let_def)

lemma search_memories_loaded:
  assumes "fst (load_memories st) = Inr memories"
  shows "fst (search_memories st query limit) =
         Inr (map snd (py_take limit (sort_by_score (scored_memories (py_lower query) memories))))"
  using assms
  by (cases "load_memories st") (simp add: search_memories_def score_memories_eq Let_def)

lemma py_take_is_take: "\<exists>n. py_take limit xs = take n xs"
  by (auto simp: py_take_def)

lemma scored_memories_pairs:
  "p \<in> set (scored_memories ql memories) \<Longrightarrow> fst p = score_memory ql (snd p) \<and> 0 < fst p"
  by (auto simp: scored_memories_def)

lemma sorted_take_scores:
  "sorted (map (\<lambda>p. - fst p) (take n (sort_by_score xs)))"
  by (simp add: sort_by_score_def take_map [symmetric] sorted_wrt_take del: take_map)

text \<open>In the result, a memory of greater score stands before one of smaller score.\<close>

lemma ranked_before:
  assumes found: "found = map snd (py_take limit (sort_by_score (scored_memories ql memories)))"
    and i: "i < length found" and j: "j < length found"
    and less: "score_memory ql (found ! j) < score_memory ql (found ! i)"
  shows "i < j"
proof (rule ccontr)
  assume "\<not> i < j"
  then have ji: "j \<le> i" by simp
  obtain n where n: "py_take limit (sort_by_score (scored_memories ql memories)) =
      take n (sort_by_score (scored_memories ql memories))"
    using py_take_is_take by blast
  let ?ps = "take n (sort_by_score (scored_memories ql memories))"
  have len: "length found = length ?ps" by (simp add: found n)
  have srt: "sorted (map (\<lambda>p. - fst p) ?ps)" by (rule sorted_take_scores)
  have "(map (\<lambda>p. - fst p) ?ps) ! j \<le> (map (\<lambda>p. - fst p) ?ps) ! i"
    using srt ji i len by (intro sorted_nth_mono) simp_all
  then have le: "fst (?ps ! i) \<le> fst (?ps ! j)"
    using i j len by simp
  have mem: "\<And>k. k < length ?ps \<Longrightarrow> fst (?ps ! k) = score_memory ql (snd (?ps ! k))"
  proof -
    fix k assume "k < length ?ps"
    then have "?ps ! k \<in> set ?ps" by (rule nth_mem)
    then have "?ps ! k \<in> set (sort_by_score (scored_memories ql memories))"
      by (rule in_set_takeD)
    then have "?ps ! k \<in> set (scored_memories ql memories)"
      by (simp add: sort_by_score_def)
    then show "fst (?ps ! k) = score_memory ql (snd (?ps ! k))"
      by (simp add: scored_memories_pairs)
  qed
  have fi: "found ! i = snd (?ps ! i)" using i len by (simp add: found n)
  have fj: "found ! j = snd (?ps ! j)" using j len by (simp add: found n)
  from le mem [of i] mem [of j] i j len fi fj less show False by simp
qed

lemma found_positive:
  assumes "found = map snd (py_take limit (sort_by_score (scored_memories ql memories)))"
    and "memory \<in> set found"
  shows "0 < score_memory ql memory"
proof -
  obtain n where n: "py_take limit (sort_by_score (scored_memories ql memories)) =
      take n (sort_by_score (scored_memories ql memories))"
    using py_take_is_take by blast
  from assms obtain p where p: "p \<in> set (take n (sort_by_score (scored_memories ql memories)))"
      and m: "memory = snd p"
    by (auto simp: n)
  from p have "p \<in> set (sort_by_score (scored_memories ql memories))"
    by (rule in_set_takeD)
  then have "p \<in> set (scored_memories ql memories)"
    by (simp add: sort_by_score_def)
  with m show ?thesis
    using scored_memories_pairs [of p ql memories] by simp
qed

text \<open>A limit that is not below the number of memories cuts nothing off.\<close>

lemma found_all:
  assumes "found = map snd (py_take limit (sort_by_score (scored_memories ql memories)))"
    and "int (length memories) \<le> limit"
    and "memory \<in> set memories" and "0 < score_memory ql memory"
  shows "memory \<in> set found"
proof -
  have "length (scored_memories ql memories) \<le> length memories"
    by (simp add: scored_memories_def)
  with assms(2) have "py_take limit (sort_by_score (scored_memories ql memories)) =
      sort_by_score (scored_memories ql memories)"
    by (simp add: py_take_def sort_by_score_def)
  with assms(1) have "set found = snd ` set (scored_memories ql memories)"
    by (simp add: sort_by_score_def)
  moreover have "(score_memory ql memory, memory) \<in> set (scored_memories ql memories)"
    using assms(3,4) by (auto simp: scored_memories_def)
  ultimately show ?thesis by force
qed

lemma str_dict_empty: "py_lower (str_dict []) = ''{}''"
  by (simp add: str_dict_def py_lower_def lower_char_def)

text \<open>The search on the example store, evaluated.\<close>

lemma worded_lower: "py_lower (content memory_worded) = ''use redis for sessions''"
  by code_simp

lemma example_store_search:
  "fst (search_memories example_store ''redis'' 10) = Inr [memory_worded, memory_tagged]"
proof -
  have t: "score_memory ''redis'' memory_tagged = 2"
    by (simp add: score_memory_def memory_tagged_def str_dict_def py_lower_def lower_char_def)
  have w: "score_memory ''redis'' memory_worded = 5"
    by (simp add: score_memory_def worded_lower)
       (simp add: memory_worded_def str_dict_def py_lower_def lower_char_def)
  have o: "score_memory ''redis'' memory_other = 0"
    by (simp add: score_memory_def memory_other_def str_dict_def py_lower_def lower_char_def)
  have q: "py_lower ''redis'' = ''redis''"
    by (simp add: py_lower_def lower_char_def)
  show ?thesis
    by (simp add: search_memories_def load_memories_def example_store_def q t w o
        sort_by_score_def py_take_def Let_def)
qed

text \<open>
  Claim C4. For the query \<open>redis\<close> on a store that loads: a memory with the tag
  \<open>redis\<close> and no other tag containing \<open>redis\<close>, with empty content, no enhanced
  content and an empty context, scores exactly 2; a memory with \<open>redis\<close> in its content
  and in none of its enhanced content, tags and context scores exactly 5; in the result
  of \<^verbatim>\<open>search_memories\<close> the second stands before the first wherever both occur, and
  both occur when they are in the store and the limit is not below the size of the store;
  a memory none of whose fields contains \<open>redis\<close> is not in the result.
\<close>

theorem redis_memories:
  assumes load: "fst (load_memories st) = Inr memories"
    and tagged: "content tagged = []" "enhanced_content tagged = None" "mem_context tagged = []"
      "''redis'' \<in> set (tags tagged)"
      "length (filter (\<lambda>tag. str_in ''redis'' (py_lower tag)) (tags tagged)) = 1"
    and worded: "str_in ''redis'' (py_lower (content worded))"
      "\<forall>e. enhanced_content worded = Some e \<longrightarrow> \<not> str_in ''redis'' (py_lower e)"
      "\<forall>tag\<in>set (tags worded). \<not> str_in ''redis'' (py_lower tag)"
      "\<not> str_in ''redis'' (py_lower (str_dict (mem_context worded)))"
    and other: "\<not> str_in ''redis'' (py_lower (content other))"
      "\<forall>e. enhanced_content other = Some e \<longrightarrow> \<not> str_in ''redis'' (py_lower e)"
      "\<forall>tag\<in>set (tags other). \<not> str_in ''redis'' (py_lower tag)"
      "\<not> str_in ''redis'' (py_lower (str_dict (mem_context other)))"
  shows "score_memory ''redis'' tagged = 2 \<and> score_memory ''redis'' worded = 5 \<and>
         (\<exists>found. fst (search_memories st ''redis'' limit) = Inr found \<and>
            other \<notin> set found \<and>
            (\<forall>i j. i < length found \<and> j < length found \<and> found ! i = worded \<and>
               found ! j = tagged \<longrightarrow> i < j) \<and>
            (tagged \<in> set memories \<and> worded \<in> set memories \<and>
               int (length memories) \<le> limit \<longrightarrow> tagged \<in> set found \<and> worded \<in> set found))"
proof -
  have ql: "py_lower ''redis'' = ''redis''"
    by (simp add: py_lower_def lower_char_def)
  have e: "py_lower [] = []"
    by (simp add: py_lower_def)
  have t: "score_memory ''redis'' tagged = 2"
    using tagged by (simp add: score_memory_def str_dict_empty e)
  have n: "score_memory ''redis'' worded = 5"
    using worded by (auto simp: score_memory_def filter_empty_conv split: option.splits)
  have o: "score_memory ''redis'' other = 0"
    using other by (auto simp: score_memory_def filter_empty_conv split: option.splits)
  let ?found = "map snd (py_take limit (sort_by_score (scored_memories ''redis'' memories)))"
  have f: "fst (search_memories st ''redis'' limit) = Inr ?found"
    using search_memories_loaded [OF load, of "''redis''" limit] by (simp add: ql)
  have 1: "other \<notin> set ?found"
    using found_positive [of ?found limit "''redis''" memories other] o by auto
  have 2: "i < j"
    if "i < length ?found" "j < length ?found" "?found ! i = worded" "?found ! j = tagged"
    for i j
    using ranked_before [of ?found limit "''redis''" memories i j] that t n by simp
  have 3: "tagged \<in> set ?found \<and> worded \<in> set ?found"
    if "tagged \<in> set memories" "worded \<in> set memories" "int (length memories) \<le> limit"
    using found_all [of ?found limit "''redis''" memories tagged]
      found_all [of ?found limit "''redis''" memories worded] that t n by simp
  from t n f 1 2 3 show ?thesis by blast
qed

theorem redis_memories_witness:
  "fst (load_memories example_store) = Inr [memory_tagged, memory_worded, memory_other] \<and>
   score_memory ''redis'' memory_tagged = 2 \<and> score_memory ''redis'' memory_worded = 5 \<and>
   fst (search_memories example_store ''redis'' 10) = Inr [memory_worded, memory_tagged] \<and>
   memory_other \<notin> set [memory_worded, memory_tagged]"
proof -
  have l: "fst (load_memories example_store) = Inr [memory_tagged, memory_worded, memory_other]"
    by (simp add: load_memories_def example_store_def)
  have t: "content memory_tagged = []" "enhanced_content memory_tagged = None"
    "mem_context memory_tagged = []" "''redis'' \<in> set (tags memory_tagged)"
    "length (filter (\<lambda>tag. str_in ''redis'' (py_lower tag)) (tags memory_tagged)) = 1"
    by (simp_all add: memory_tagged_def py_lower_def lower_char_def)
  have w: "str_in ''redis'' (py_lower (content memory_worded))"
    "\<forall>e. enhanced_content memory_worded = Some e \<longrightarrow> \<not> str_in ''redis'' (py_lower e)"
    "\<forall>tag\<in>set (tags memory_worded). \<not> str_in ''redis'' (py_lower tag)"
    "\<not> str_in ''redis'' (py_lower (str_dict (mem_context memory_worded)))"
    by (simp add: worded_lower)
       (simp_all add: memory_worded_def str_dict_def py_lower_def lower_char_def)
  have o: "\<not> str_in ''redis'' (py_lower (content memory_other))"
    "\<forall>e. enhanced_content memory_other = Some e \<longrightarrow> \<not> str_in ''redis'' (py_lower e)"
    "\<forall>tag\<in>set (tags memory_other). \<not> str_in ''redis'' (py_lower tag)"
    "\<not> str_in ''redis'' (py_lower (str_dict (mem_context memory_other)))"
    by (simp_all add: memory_other_def str_dict_def py_lower_def lower_char_def)
  from redis_memories [OF l t w o, of 10] example_store_search
  show ?thesis using l by auto
qed

section \<open>The boundary of no results\<close>

text \<open>
  Claim C9. With a maximum of 0, \<^verbatim>\<open>search_commits\<close> returns the empty list for
  every query, log and engine state, without reading any commit; and
  \<^verbatim>\<open>search_memories\<close> with the limit 0 returns the empty list for every query and
  every contents the store loads.
\<close>

theorem zero_maximum_is_empty:
  "search_commits repo query 0 s = (Inr [], s) \<and>
   (fst (load_memories st) = Inr memories \<longrightarrow> fst (search_memories st query' 0) = Inr [])"
proof
  show "search_commits repo query 0 s = (Inr [], s)"
    by (cases "commits repo") (simp_all add: search_commits_def sort_by_score_def)
  show "fst (load_memories st) = Inr memories \<longrightarrow> fst (search_memories st query' 0) = Inr []"
    by (cases "load_memories st") (simp add: search_memories_def py_take_def)
qed

theorem zero_maximum_is_empty_witness:
  "search_commits example_repo ''redis'' 0 init_engine = (Inr [], init_engine) \<and>
   fst (load_memories example_store) = Inr [memory_tagged, memory_worded, memory_other] \<and>
   fst (search_memories example_store ''redis'' 0) = Inr []"
proof -
  have l: "fst (load_memories example_store) = Inr [memory_tagged, memory_worded, memory_other]"
    by (simp add: load_memories_def example_store_def)
  from zero_maximum_is_empty [of example_repo "''redis''" init_engine example_store
      "[memory_tagged, memory_worded, memory_other]" "''redis''"] l
  show ?thesis by simp
qed


end
